theory Spec2Isabelle
  imports Complex_Main
begin

section \<open>glitch-bliss: the audio-loop engine of app.js\<close>

text \<open>
  Conventions of the embedding.
  \<^item> A JavaScript number is a \<open>real\<close>: arithmetic is exact, rounding of doubles is not
    modelled. \<open>Math.floor\<close> is \<open>\<lfloor>_\<rfloor>\<close>.
  \<^item> The value \<open>undefined\<close> is \<open>None\<close>; a field that the code may set to
    \<open>undefined\<close> has an option type.
  \<^item> Reading an array outside its bounds gives \<open>undefined\<close> (\<open>js_index\<close>).
  \<^item> An exception thrown to the event loop is an \<open>error\<close> returned beside the state
    that the interrupted function leaves behind (JavaScript does not roll back).
  \<^item> Console output and writes to the DOM are not part of the state, and of the audio
    graph only the nodes that the loopers and the reverb mix write to are.
\<close>

datatype error = TypeError | InvalidStateError

definition js_index :: "'a list \<Rightarrow> int \<Rightarrow> 'a option" where
  "js_index xs i = (if 0 \<le> i \<and> i < int (length xs) then Some (xs ! nat i) else None)"

subsection \<open>ParameterSmoother\<close>

record ParameterSmoother =
  currentValue :: real
  targetValue :: real
  smoothingFactor :: real

text \<open>
  The constructor \<open>new ParameterSmoother(initialValue, smoothingFactor)\<close>; every call in
  app.js gives both arguments, so the default 0.1 of the second is never taken.
\<close>

definition newParameterSmoother :: "real \<Rightarrow> real \<Rightarrow> ParameterSmoother" where
  "newParameterSmoother initialValue factor =
     \<lparr>currentValue = initialValue, targetValue = initialValue, smoothingFactor = factor\<rparr>"

definition setTarget :: "real \<Rightarrow> ParameterSmoother \<Rightarrow> ParameterSmoother" where
  "setTarget newValue p = p\<lparr>targetValue := newValue\<rparr>"

text \<open>\<open>step()\<close> updates the smoother and returns the new \<open>currentValue\<close>.\<close>

definition step :: "ParameterSmoother \<Rightarrow> real \<times> ParameterSmoother" where
  "step p =
     (let p' = p\<lparr>currentValue :=
                  currentValue p + (targetValue p - currentValue p) * smoothingFactor p\<rparr>
      in (currentValue p', p'))"


subsection \<open>Speed quantizer\<close>

definition PLAYBACK_SPEEDS :: "real list" where
  "PLAYBACK_SPEEDS = [-4, -2, -1.5, -1, -0.5, -0.25, 0.25, 0.5, 1, 1.5, 2, 4]"

definition mapToSpeed :: "real \<Rightarrow> real option" where
  "mapToSpeed normalizedValue =
     (let index = \<lfloor>normalizedValue * real (length PLAYBACK_SPEEDS)\<rfloor>
      in js_index PLAYBACK_SPEEDS (min index (int (length PLAYBACK_SPEEDS) - 1)))"

text \<open>
  The quantizer as the specification words it: the bucket index \<open>\<lfloor>x \<times> N\<rfloor>\<close> is clamped
  to \<open>[0, N - 1]\<close> on both sides, and the element at that index is returned.
\<close>

definition mapToSpeed_spec :: "real \<Rightarrow> real" where
  "mapToSpeed_spec x =
     PLAYBACK_SPEEDS ! nat (max 0 (min \<lfloor>x * real (length PLAYBACK_SPEEDS)\<rfloor>
                                        (int (length PLAYBACK_SPEEDS) - 1)))"

subsection \<open>Samples, playback voices and loopers\<close>

text \<open>
  A sample is an element of a \<open>Float32Array\<close>: a number, or the value \<open>NaN\<close> that a typed
  array stores when it is given \<open>undefined\<close>. Reading a typed array outside its bounds
  gives \<open>undefined\<close>, so a copy of such a read stores \<open>NaN\<close> (\<open>readSample\<close>); a write
  outside the bounds is ignored, which is what \<open>xs[i := v]\<close> does.
\<close>

datatype sample = Sample real | NaN

definition readSample :: "sample list \<Rightarrow> nat \<Rightarrow> sample" where
  "readSample xs i = (if i < length xs then xs ! i else NaN)"

text \<open>
  A playback voice is an \<open>AudioBufferSourceNode\<close>. The nodes created so far live in the
  store \<open>voices\<close> of the engine, and a looper's \<open>bufferSource\<close> is a position in that
  store (\<open>None\<close> is \<open>null\<close>). \<open>stop()\<close> on a node that was never started throws
  \<open>InvalidStateError\<close>; assigning \<open>undefined\<close> to \<open>playbackRate.value\<close> throws
  \<open>TypeError\<close>.
\<close>

record voice =
  buffer :: "sample list option"
  loop :: bool
  playbackRate_value :: real
  isConnected :: bool
  started :: bool
  stopped :: bool

definition createBufferSource :: voice where
  "createBufferSource =
     \<lparr>buffer = None, loop = False, playbackRate_value = 1, isConnected = False,
      started = False, stopped = False\<rparr>"

text \<open>
  The looper object of \<open>createLooper\<close>. \<open>bufferLength\<close> is the constant that the
  recording callback closes over; \<open>recordBufferData\<close> is the channel data of
  \<open>recordBuffer\<close>. The script processor and the gain node carry no state of their own.
\<close>

record looper =
  index :: nat
  bufferLength :: nat
  recordBufferData :: "sample list"
  writePosition :: nat
  recordedLength :: nat
  bufferSource :: "nat option"
  isRecording :: bool
  isPlaying :: bool
  glitchIntensity :: real
  playbackRate :: real
  targetPlaybackRate :: "real option"
  stutterRate :: real
  feedbackAmount :: real

definition createLooper :: "nat \<Rightarrow> nat \<Rightarrow> looper" where
  "createLooper i sampleRate =
     \<lparr>index = i,
      bufferLength = sampleRate * 30,
      recordBufferData = replicate (sampleRate * 30) (Sample 0),
      writePosition = 0,
      recordedLength = 0,
      bufferSource = None,
      isRecording = False,
      isPlaying = False,
      glitchIntensity = 0,
      playbackRate = 1,
      targetPlaybackRate = Some 1,
      stutterRate = 0,
      feedbackAmount = 0\<rparr>"

text \<open>
  The two smoothers that \<open>parameterSmoothers\<close> holds under the key \<open>looper\<close>\<open>i\<close>; the
  dictionary is the list of these pairs, position \<open>i\<close> for key \<open>looper\<close>\<open>i\<close>.
\<close>

record looper_smoothers =
  glitchIntensity_smoother :: ParameterSmoother
  stutterRate_smoother :: ParameterSmoother

text \<open>
  The globals of app.js that the engine reads and writes. \<open>isPlaying_global\<close> is the
  top-level \<open>isPlaying\<close>; \<open>reverbWet\<close> and \<open>reverbDry\<close> hold the gain value of their
  node once it is built.
\<close>

record engine =
  isPlaying_global :: bool
  xValue :: int
  yValue :: int
  rotation :: int
  reverbWet :: "real option"
  reverbDry :: "real option"
  loopers :: "looper list"
  parameterSmoothers :: "looper_smoothers list"
  voices :: "voice list"

definition initial_engine :: engine where
  "initial_engine =
     \<lparr>isPlaying_global = False, xValue = 0, yValue = 0, rotation = 0,
      reverbWet = None, reverbDry = None, loopers = [], parameterSmoothers = [],
      voices = []\<rparr>"

definition update_looper :: "nat \<Rightarrow> (looper \<Rightarrow> looper) \<Rightarrow> engine \<Rightarrow> engine" where
  "update_looper i f s = s\<lparr>loopers := (loopers s)[i := f (loopers s ! i)]\<rparr>"

definition update_voice :: "nat \<Rightarrow> (voice \<Rightarrow> voice) \<Rightarrow> engine \<Rightarrow> engine" where
  "update_voice v f s = s\<lparr>voices := (voices s)[v := f (voices s ! v)]\<rparr>"

text \<open>Statements in sequence: the first exception ends the run.\<close>

fun sequence :: "(engine \<Rightarrow> error option \<times> engine) list \<Rightarrow> engine \<Rightarrow> error option \<times> engine"
  where
  "sequence [] s = (None, s)"
| "sequence (f # fs) s = (case f s of (Some e, s') \<Rightarrow> (Some e, s') | (None, s') \<Rightarrow> sequence fs s')"

subsection \<open>Transport\<close>

definition stopRecording :: "nat \<Rightarrow> engine \<Rightarrow> error option \<times> engine" where
  "stopRecording looperIndex s =
     (if \<not> looperIndex < length (loopers s) then (Some TypeError, s)
      else (None, update_looper looperIndex (\<lambda>l. l\<lparr>isRecording := False\<rparr>) s))"

definition stopPlayback :: "nat \<Rightarrow> engine \<Rightarrow> error option \<times> engine" where
  "stopPlayback looperIndex s =
     (if \<not> looperIndex < length (loopers s) then (Some TypeError, s)
      else if \<not> isPlaying (loopers s ! looperIndex) then (None, s)
      else case bufferSource (loopers s ! looperIndex) of
        None \<Rightarrow> (None, update_looper looperIndex (\<lambda>l. l\<lparr>isPlaying := False\<rparr>) s)
      | Some v \<Rightarrow>
          if \<not> started (voices s ! v) then (Some InvalidStateError, s)
          else (None,
                update_looper looperIndex (\<lambda>l. l\<lparr>bufferSource := None, isPlaying := False\<rparr>)
                  (update_voice v (\<lambda>b. b\<lparr>stopped := True, isConnected := False\<rparr>) s)))"

definition startRecording :: "nat \<Rightarrow> engine \<Rightarrow> error option \<times> engine" where
  "startRecording looperIndex s =
     (if \<not> looperIndex < length (loopers s) then (Some TypeError, s)
      else sequence
        [\<lambda>s. if isPlaying (loopers s ! looperIndex) then stopPlayback looperIndex s
              else (None, s),
         \<lambda>s. (None, update_looper looperIndex
                 (\<lambda>l. l\<lparr>writePosition := 0, recordedLength := 0, isRecording := True\<rparr>) s)]
        s)"

text \<open>
  The loop of \<open>startPlayback\<close> that fills \<open>playData\<close>, a new array of \<open>recordedLength\<close>
  zeros, from \<open>recordBufferData\<close>.
\<close>

function copyRecorded :: "nat \<Rightarrow> nat \<Rightarrow> sample list \<Rightarrow> sample list \<Rightarrow> sample list" where
  "copyRecorded i n src playData =
     (if i < n then copyRecorded (Suc i) n src (playData[i := readSample src i])
      else playData)"
  by pat_completeness auto
termination
  by (relation "measure (\<lambda>(i, n, src, playData). n - i)") auto

declare copyRecorded.simps [simp del]

definition startPlayback :: "nat \<Rightarrow> engine \<Rightarrow> error option \<times> engine" where
  "startPlayback looperIndex s =
     (if \<not> looperIndex < length (loopers s) then (Some TypeError, s)
      else
        let s1 = (if isRecording (loopers s ! looperIndex) then snd (stopRecording looperIndex s)
                  else s);
            looper = loopers s1 ! looperIndex
        in if recordedLength looper = 0 then (None, s1)
           else
             let v = length (voices s1);
                 playData = copyRecorded 0 (recordedLength looper) (recordBufferData looper)
                              (replicate (recordedLength looper) (Sample 0));
                 s2 = update_looper looperIndex (\<lambda>l. l\<lparr>bufferSource := Some v\<rparr>)
                        (s1\<lparr>voices := voices s1
                              @ [createBufferSource\<lparr>buffer := Some playData, loop := True\<rparr>]\<rparr>)
             in case targetPlaybackRate looper of
                  None \<Rightarrow> (Some TypeError, s2)
                | Some r \<Rightarrow>
                    (None,
                     update_looper looperIndex (\<lambda>l. l\<lparr>isPlaying := True\<rparr>)
                       (update_voice v
                          (\<lambda>b. b\<lparr>playbackRate_value := r, isConnected := True, started := True\<rparr>)
                          s2)))"

definition clearLoop :: "nat \<Rightarrow> engine \<Rightarrow> error option \<times> engine" where
  "clearLoop looperIndex s =
     sequence
       [stopPlayback looperIndex,
        stopRecording looperIndex,
        \<lambda>s. (None, update_looper looperIndex
                (\<lambda>l. l\<lparr>writePosition := 0, recordedLength := 0\<rparr>) s)]
       s"

subsection \<open>The recording callback\<close>

text \<open>The loop of \<open>onaudioprocess\<close> that appends the first \<open>copyLength\<close> input samples.\<close>

function recordLoop :: "nat \<Rightarrow> nat \<Rightarrow> sample list \<Rightarrow> looper \<Rightarrow> looper" where
  "recordLoop i copyLength input l =
     (if i < copyLength
      then recordLoop (Suc i) copyLength input
             (l\<lparr>recordBufferData := (recordBufferData l)[writePosition l := readSample input i],
                writePosition := Suc (writePosition l)\<rparr>)
      else l)"
  by pat_completeness auto
termination
  by (relation "measure (\<lambda>(i, copyLength, input, l). copyLength - i)") auto

declare recordLoop.simps [simp del]

text \<open>
  The callback of the script processor of looper \<open>i\<close>, called with one block of input.
  No callback exists for an index without a looper.
\<close>

definition onaudioprocess :: "nat \<Rightarrow> sample list \<Rightarrow> engine \<Rightarrow> error option \<times> engine" where
  "onaudioprocess i input s =
     (if \<not> i < length (loopers s) then (None, s)
      else if \<not> isRecording (loopers s ! i) then (None, s)
      else
        let remaining = int (bufferLength (loopers s ! i)) - int (writePosition (loopers s ! i))
        in if remaining \<le> 0 then stopRecording i s
           else
             let copyLength = min (length input) (nat remaining)
             in (None,
                 update_looper i
                   (\<lambda>l. let l' = recordLoop 0 copyLength input l
                        in l'\<lparr>recordedLength := writePosition l'\<rparr>) s))"

subsection \<open>The update loop\<close>

text \<open>
  The expression \<open>x || 1\<close> for a number or \<open>undefined\<close>: it is 1 when \<open>x\<close> is
  \<open>undefined\<close> or 0, and \<open>x\<close> otherwise.
\<close>

definition or_1 :: "real option \<Rightarrow> real" where
  "or_1 x = (case x of None \<Rightarrow> 1 | Some r \<Rightarrow> if r = 0 then 1 else r)"

text \<open>
  The body that \<open>updateLooperParameters\<close> runs for the looper at index \<open>i\<close>;
  \<open>forEach\<close> calls it for the indices of \<open>loopers\<close>, in order.
\<close>

definition updateLooper :: "nat \<Rightarrow> engine \<Rightarrow> error option \<times> engine" where
  "updateLooper i s =
     (if \<not> i < length (parameterSmoothers s) then (Some TypeError, s)
      else
        let smoothers = parameterSmoothers s ! i;
            looper = loopers s ! i;
            g = step (glitchIntensity_smoother smoothers);
            rate = or_1 (targetPlaybackRate looper);
            st = step (stutterRate_smoother smoothers);
            s1 = s\<lparr>parameterSmoothers := (parameterSmoothers s)
                      [i := \<lparr>glitchIntensity_smoother = snd g, stutterRate_smoother = snd st\<rparr>]\<rparr>;
            s2 = update_looper i
                   (\<lambda>l. l\<lparr>glitchIntensity := fst g, playbackRate := rate, stutterRate := fst st\<rparr>)
                   s1
        in case bufferSource looper of
             None \<Rightarrow> (None, s2)
           | Some v \<Rightarrow>
               if isPlaying looper
               then (None, update_voice v (\<lambda>b. b\<lparr>playbackRate_value := rate\<rparr>) s2)
               else (None, s2))"

definition updateLooperParameters :: "engine \<Rightarrow> error option \<times> engine" where
  "updateLooperParameters s = sequence (map updateLooper [0..<length (loopers s)]) s"

subsection \<open>Engine start, orientation and reverb mix\<close>

text \<open>
  \<open>startOscillators\<close> once the audio context has resumed, for a context of the given
  sample rate: the part of the graph that the loopers and the reverb mix use.
\<close>

definition startOscillators :: "nat \<Rightarrow> engine \<Rightarrow> engine" where
  "startOscillators sampleRate s =
     (if isPlaying_global s then s
      else snd (updateLooperParameters
        (s\<lparr>reverbWet := Some 0,
           reverbDry := Some 1,
           loopers := map (\<lambda>i. createLooper i sampleRate) [0..<4],
           parameterSmoothers :=
             map (\<lambda>i. \<lparr>glitchIntensity_smoother = newParameterSmoother 0 0.15,
                       stutterRate_smoother = newParameterSmoother 0 0.2\<rparr>) [0..<4],
           isPlaying_global := True\<rparr>)))"

definition setGlitchTarget :: "nat \<Rightarrow> real \<Rightarrow> engine \<Rightarrow> error option \<times> engine" where
  "setGlitchTarget i x s =
     (if \<not> i < length (parameterSmoothers s) then (Some TypeError, s)
      else (None, s\<lparr>parameterSmoothers := (parameterSmoothers s)
              [i := (parameterSmoothers s ! i)\<lparr>glitchIntensity_smoother :=
                      setTarget x (glitchIntensity_smoother (parameterSmoothers s ! i))\<rparr>]\<rparr>))"

definition setTargetPlaybackRate :: "nat \<Rightarrow> real option \<Rightarrow> engine \<Rightarrow> error option \<times> engine"
  where
  "setTargetPlaybackRate i r s =
     (if \<not> i < length (loopers s) then (Some TypeError, s)
      else (None, update_looper i (\<lambda>l. l\<lparr>targetPlaybackRate := r\<rparr>) s))"

text \<open>
  The \<open>deviceorientation\<close> listener (registered with the same body in both branches of
  \<open>permission\<close>), called with \<open>event.gamma\<close>, \<open>event.beta\<close> and \<open>event.alpha\<close>.
  \<open>Math.round\<close> rounds halves up.
\<close>

definition onDeviceOrientation :: "real \<Rightarrow> real \<Rightarrow> real \<Rightarrow> engine \<Rightarrow> error option \<times> engine"
  where
  "onDeviceOrientation event_gamma event_beta event_alpha s =
     (let gamma = (event_gamma + 90) / 180;
          beta = (event_beta + 180) / 360;
          alpha = event_alpha / 360
      in sequence
           [setGlitchTarget 0 gamma,
            setTargetPlaybackRate 0 (mapToSpeed beta),
            setGlitchTarget 1 beta,
            setTargetPlaybackRate 1 (mapToSpeed alpha),
            setGlitchTarget 2 alpha,
            setTargetPlaybackRate 2 (mapToSpeed gamma),
            setGlitchTarget 3 ((gamma + beta) / 2),
            setTargetPlaybackRate 3 (mapToSpeed alpha)]
           (s\<lparr>xValue := \<lfloor>event_gamma + 1 / 2\<rfloor>,
              yValue := \<lfloor>event_beta + 1 / 2\<rfloor>,
              rotation := \<lfloor>event_alpha + 1 / 2\<rfloor>\<rparr>))"

text \<open>
  The \<open>input\<close> listener of the reverb slider, called with \<open>parseInt(this.value)\<close>.
\<close>

definition reverbSliderInput :: "int \<Rightarrow> engine \<Rightarrow> engine" where
  "reverbSliderInput reverbAmount s =
     (if reverbWet s \<noteq> None \<and> reverbDry s \<noteq> None
      then let wetGain = real_of_int reverbAmount / 100;
               dryGain = 1 - wetGain
           in s\<lparr>reverbWet := Some wetGain, reverbDry := Some dryGain\<rparr>
      else s)"

subsection \<open>Runs of the engine\<close>

text \<open>
  What can happen to a started engine: a transport function is called for a looper, the
  audio thread delivers a block to a looper's callback, a frame of the update loop runs,
  an orientation sample or a slider input arrives. An exception ends the function that
  threw it and leaves the state as it is at that point.
\<close>

datatype command =
    StartRecording nat
  | StopRecording nat
  | StartPlayback nat
  | StopPlayback nat
  | ClearLoop nat
  | AudioProcess nat "sample list"
  | UpdateParameters
  | DeviceOrientation real real real
  | ReverbInput int

fun exec :: "command \<Rightarrow> engine \<Rightarrow> engine" where
  "exec (StartRecording i) s = snd (startRecording i s)"
| "exec (StopRecording i) s = snd (stopRecording i s)"
| "exec (StartPlayback i) s = snd (startPlayback i s)"
| "exec (StopPlayback i) s = snd (stopPlayback i s)"
| "exec (ClearLoop i) s = snd (clearLoop i s)"
| "exec (AudioProcess i input) s = snd (onaudioprocess i input s)"
| "exec UpdateParameters s = snd (updateLooperParameters s)"
| "exec (DeviceOrientation g b a) s = snd (onDeviceOrientation g b a s)"
| "exec (ReverbInput p) s = reverbSliderInput p s"

fun run :: "command list \<Rightarrow> engine \<Rightarrow> engine" where
  "run [] s = s"
| "run (c # cs) s = run cs (exec c s)"

subsection \<open>Notions used in the properties\<close>

text \<open>Transport exclusivity of one looper: not recording and playing at once.\<close>

definition exclusive :: "looper \<Rightarrow> bool" where
  "exclusive l \<longleftrightarrow> \<not> (isRecording l \<and> isPlaying l)"

text \<open>
  A looper of an engine with the given sample rate stays within its recording capacity of
  \<open>sampleRate \<times> 30\<close> samples.
\<close>

definition within_capacity :: "nat \<Rightarrow> looper \<Rightarrow> bool" where
  "within_capacity sampleRate l \<longleftrightarrow>
     bufferLength l = sampleRate * 30
     \<and> length (recordBufferData l) = sampleRate * 30
     \<and> writePosition l \<le> sampleRate * 30
     \<and> recordedLength l \<le> writePosition l"

text \<open>The voice that a successful \<open>startPlayback\<close> leaves in the store.\<close>

definition played_voice :: "sample list \<Rightarrow> real \<Rightarrow> voice" where
  "played_voice samples r =
     \<lparr>buffer = Some samples, loop = True, playbackRate_value = r, isConnected = True,
      started = True, stopped = False\<rparr>"

text \<open>The pair of smoothers that \<open>startOscillators\<close> creates for each looper.\<close>

definition fresh_smoothers :: looper_smoothers where
  "fresh_smoothers =
     \<lparr>glitchIntensity_smoother = newParameterSmoother 0 0.15,
      stutterRate_smoother = newParameterSmoother 0 0.2\<rparr>"

text \<open>
  The looper holds exactly the samples \<open>xs\<close> delivered since recording started, clipped to
  its capacity: they are the first \<open>recordedLength\<close> samples of the buffer, and the looper
  is still recording unless the capacity was reached.
\<close>

definition recorded :: "sample list \<Rightarrow> looper \<Rightarrow> bool" where
  "recorded xs l \<longleftrightarrow>
     length (recordBufferData l) = bufferLength l
     \<and> writePosition l = min (length xs) (bufferLength l)
     \<and> recordedLength l = writePosition l
     \<and> take (writePosition l) (recordBufferData l) = take (bufferLength l) xs
     \<and> (isRecording l \<or> bufferLength l \<le> length xs)"

text \<open>
  The references from loopers to voices are sound: a \<open>bufferSource\<close> refers to a voice in
  the store, and no two loopers refer to the same voice.
\<close>

definition refs_ok :: "nat option list \<Rightarrow> nat \<Rightarrow> bool" where
  "refs_ok rs n \<longleftrightarrow>
     (\<forall>i < length rs. \<forall>v. rs ! i = Some v \<longrightarrow>
        v < n \<and> (\<forall>j < length rs. rs ! j = Some v \<longrightarrow> j = i))"

definition voice_refs_ok :: "engine \<Rightarrow> bool" where
  "voice_refs_ok s \<longleftrightarrow> refs_ok (map bufferSource (loopers s)) (length (voices s))"

text \<open>
  The references after a function: the same, or one cleared, or one set to a new voice.
\<close>

definition refs_step :: "engine \<Rightarrow> engine \<Rightarrow> bool" where
  "refs_step s s' \<longleftrightarrow>
     (map bufferSource (loopers s') = map bufferSource (loopers s)
        \<and> length (voices s') = length (voices s))
     \<or> (\<exists>i. map bufferSource (loopers s') = (map bufferSource (loopers s))[i := None]
        \<and> length (voices s') = length (voices s))
     \<or> (\<exists>i. map bufferSource (loopers s')
              = (map bufferSource (loopers s))[i := Some (length (voices s))]
        \<and> length (voices s') = Suc (length (voices s)))"

text \<open>
  One frame of the update loop on one looper and its pair of smoothers: both smoothers
  advanced by one step, and the looper's three parameters set from them and from the
  target rate.
\<close>

definition stepped :: "looper_smoothers \<Rightarrow> looper_smoothers" where
  "stepped sm =
     \<lparr>glitchIntensity_smoother = snd (step (glitchIntensity_smoother sm)),
      stutterRate_smoother = snd (step (stutterRate_smoother sm))\<rparr>"

definition applied :: "looper_smoothers \<Rightarrow> looper \<Rightarrow> looper" where
  "applied sm l =
     l\<lparr>glitchIntensity := fst (step (glitchIntensity_smoother sm)),
       playbackRate := or_1 (targetPlaybackRate l),
       stutterRate := fst (step (stutterRate_smoother sm))\<rparr>"

section \<open>Properties\<close>

subsection \<open>Smoother\<close>













subsection \<open>Speed quantizer\<close>

lemma length_PLAYBACK_SPEEDS: "length PLAYBACK_SPEEDS = 12"
  by (simp add: PLAYBACK_SPEEDS_def)

lemma mapToSpeed_index:
  "mapToSpeed x = js_index PLAYBACK_SPEEDS (min \<lfloor>x * 12\<rfloor> 11)"
  by (simp add: mapToSpeed_def length_PLAYBACK_SPEEDS)

lemma mapToSpeed_nonneg:
  assumes "0 \<le> x"
  shows "mapToSpeed x = Some (mapToSpeed_spec x)"
    and "mapToSpeed_spec x \<in> set PLAYBACK_SPEEDS"
proof -
  let ?i = "min \<lfloor>x * 12\<rfloor> (11::int)"
  have "0 \<le> x * 12" using assms by simp
  then have "0 \<le> \<lfloor>x * 12\<rfloor>" by simp
  then have i: "0 \<le> ?i" "?i < 12" by simp_all
  have spec: "mapToSpeed_spec x = PLAYBACK_SPEEDS ! nat ?i"
    using i by (simp add: mapToSpeed_spec_def length_PLAYBACK_SPEEDS max_def)
  show "mapToSpeed x = Some (mapToSpeed_spec x)"
    using i by (simp add: mapToSpeed_index js_index_def length_PLAYBACK_SPEEDS spec)
  have "nat ?i < length PLAYBACK_SPEEDS"
    using i by (simp add: length_PLAYBACK_SPEEDS)
  then show "mapToSpeed_spec x \<in> set PLAYBACK_SPEEDS"
    unfolding spec by (rule nth_mem)
qed

lemma mapToSpeed_negative:
  assumes "x < 0"
  shows "mapToSpeed x = None"
proof -
  have "x * 12 < 0" using assms by simp
  then have "\<lfloor>x * 12\<rfloor> < 0" by (simp only: floor_less_zero)
  then show ?thesis
    by (simp add: mapToSpeed_index js_index_def)
qed

lemma mapToSpeed_top:
  assumes "1 \<le> x"
  shows "mapToSpeed x = Some 4"
proof -
  have "12 \<le> x * 12" using assms by simp
  then have "12 \<le> \<lfloor>x * 12\<rfloor>" by (simp add: le_floor_iff)
  then have "min \<lfloor>x * 12\<rfloor> (11::int) = 11" by simp
  then show ?thesis
    by (simp add: mapToSpeed_index js_index_def PLAYBACK_SPEEDS_def)
qed

text \<open>
  C5, as the code has it. \<open>mapToSpeed\<close> takes the bucket index \<open>\<lfloor>x \<times> 12\<rfloor>\<close>, bounds it
  from above by 11 (there is no lower bound) and reads \<open>PLAYBACK_SPEEDS\<close> at that index.
  For every \<open>x \<ge> 0\<close>, so for every \<open>x\<close> in \<open>[0, 1)\<close>, the result is the element that the
  two-sided clamp of the specification selects, an element of the twelve-element set;
  \<open>mapToSpeed(0) = -4\<close>, and every input from 1.0 upwards gives the last bucket, 4.
  A negative input reads the array at a negative index and the result is \<open>undefined\<close>.
\<close>

theorem mapToSpeed_total_on_nonnegative:
  "mapToSpeed x = js_index PLAYBACK_SPEEDS (min \<lfloor>x * 12\<rfloor> 11)
   \<and> set PLAYBACK_SPEEDS = {-4, -2, -1.5, -1, -0.5, -0.25, 0.25, 0.5, 1, 1.5, 2, 4}
   \<and> (0 \<le> x \<longrightarrow>
         mapToSpeed x = Some (mapToSpeed_spec x) \<and> mapToSpeed_spec x \<in> set PLAYBACK_SPEEDS)
   \<and> mapToSpeed 0 = Some (-4)
   \<and> mapToSpeed 1 = Some 4
   \<and> (1 \<le> x \<longrightarrow> mapToSpeed x = Some 4)
   \<and> (x < 0 \<longrightarrow> mapToSpeed x = None)"
proof -
  have "set PLAYBACK_SPEEDS = {-4, -2, -1.5, -1, -0.5, -0.25, 0.25, 0.5, 1, 1.5, 2, 4}"
    by (simp add: PLAYBACK_SPEEDS_def)
  moreover have "mapToSpeed 0 = Some (-4)"
    by (simp add: mapToSpeed_index js_index_def PLAYBACK_SPEEDS_def)
  moreover have "mapToSpeed 1 = Some 4"
    by (rule mapToSpeed_top) simp
  ultimately show ?thesis
    using mapToSpeed_index [of x] mapToSpeed_nonneg [of x] mapToSpeed_top [of x]
      mapToSpeed_negative [of x]
    by blast
qed

theorem mapToSpeed_total_on_nonnegative_witness:
  "(0::real) \<le> 7 / 10 \<and> mapToSpeed (7 / 10) = Some 1 \<and> mapToSpeed_spec (7 / 10) = 1
   \<and> (1::real) \<le> 3 / 2 \<and> mapToSpeed (3 / 2) = Some 4
   \<and> (- 1 / 12 :: real) < 0 \<and> mapToSpeed (- 1 / 12) = None"
proof -
  note rest = conjunct2 [OF conjunct2]
  have s: "mapToSpeed_spec (7 / 10) = 1"
    by (simp add: mapToSpeed_spec_def PLAYBACK_SPEEDS_def)
  have "(0::real) \<le> 7 / 10 \<longrightarrow>
          mapToSpeed (7 / 10) = Some (mapToSpeed_spec (7 / 10))
          \<and> mapToSpeed_spec (7 / 10) \<in> set PLAYBACK_SPEEDS"
    using mapToSpeed_total_on_nonnegative [of "7 / 10"] by (rule rest [THEN conjunct1])
  then have a: "mapToSpeed (7 / 10) = Some 1"
    by (simp add: s)
  have "(1::real) \<le> 3 / 2 \<longrightarrow> mapToSpeed (3 / 2) = Some 4"
    using mapToSpeed_total_on_nonnegative [of "3 / 2"]
    by (rule rest [THEN rest, THEN conjunct2, THEN conjunct1])
  then have b: "mapToSpeed (3 / 2) = Some 4"
    by simp
  have "(- 1 / 12 :: real) < 0 \<longrightarrow> mapToSpeed (- 1 / 12) = None"
    using mapToSpeed_total_on_nonnegative [of "- 1 / 12"]
    by (rule rest [THEN rest, THEN rest])
  then have c: "mapToSpeed (- 1 / 12) = None"
    by simp
  show ?thesis using s a b c by simp
qed

text \<open>
  The claim as stated fails below zero: at \<open>x = -1/2\<close> the index \<open>\<lfloor>-6\<rfloor>\<close> is not raised to
  0, the array read is out of range, and the result is \<open>undefined\<close>, not the element -4 of
  the set that a clamp to \<open>[0, 11]\<close> selects.
\<close>

theorem mapToSpeed_negative_counterexample:
  "mapToSpeed (- 1 / 2) = None \<and> mapToSpeed_spec (- 1 / 2) = - 4"
  by (simp add: mapToSpeed_index js_index_def mapToSpeed_spec_def PLAYBACK_SPEEDS_def)

subsection \<open>State updates, sequences and loops\<close>


lemma length_loopers_update_looper [simp]:
  "length (loopers (update_looper i f s)) = length (loopers s)"
  by (simp add: update_looper_def)

lemma nth_loopers_update_looper:
  "j < length (loopers s) \<Longrightarrow>
     loopers (update_looper i f s) ! j = (if j = i then f (loopers s ! i) else loopers s ! j)"
  by (simp add: update_looper_def nth_list_update)

lemma voices_update_looper [simp]: "voices (update_looper i f s) = voices s"
  by (simp add: update_looper_def)

lemma smoothers_update_looper [simp]:
  "parameterSmoothers (update_looper i f s) = parameterSmoothers s"
  by (simp add: update_looper_def)

lemma loopers_update_voice [simp]: "loopers (update_voice v f s) = loopers s"
  by (simp add: update_voice_def)

lemma smoothers_update_voice [simp]:
  "parameterSmoothers (update_voice v f s) = parameterSmoothers s"
  by (simp add: update_voice_def)

lemma length_voices_update_voice [simp]:
  "length (voices (update_voice v f s)) = length (voices s)"
  by (simp add: update_voice_def)

lemma list_all_update:
  "list_all P xs \<Longrightarrow> (i < length xs \<Longrightarrow> P x) \<Longrightarrow> list_all P (xs[i := x])"
  by (cases "i < length xs") (auto simp: list_all_length nth_list_update)

lemma list_all_nth: "list_all P xs \<Longrightarrow> i < length xs \<Longrightarrow> P (xs ! i)"
  by (simp add: list_all_length)

text \<open>A property of the loopers that each step keeps is kept by statements in sequence.\<close>

lemma sequence_keeps:
  assumes "\<And>f s. f \<in> set fs \<Longrightarrow> Q s \<Longrightarrow> Q (snd (f s))" and "Q s"
  shows "Q (snd (sequence fs s))"
  using assms
proof (induction fs arbitrary: s)
  case Nil
  then show ?case by simp
next
  case (Cons f fs)
  have q: "Q (snd (f s))" using Cons.prems by simp
  show ?case
  proof (cases "f s")
    case (Pair e s')
    then show ?thesis
      using q Cons.IH [of s'] Cons.prems(1) by (cases e) auto
  qed
qed

lemma excl_stopRecording:
  "list_all exclusive (loopers s) \<Longrightarrow> list_all exclusive (loopers (snd (stopRecording i s)))"
  by (auto simp: stopRecording_def update_looper_def exclusive_def
      intro!: list_all_update dest: list_all_nth)

lemma excl_stopPlayback:
  "list_all exclusive (loopers s) \<Longrightarrow> list_all exclusive (loopers (snd (stopPlayback i s)))"
  by (auto simp: stopPlayback_def update_looper_def exclusive_def split: option.splits
      intro!: list_all_update dest: list_all_nth)

lemma excl_startRecording:
  "list_all exclusive (loopers s) \<Longrightarrow> list_all exclusive (loopers (snd (startRecording i s)))"
  by (auto simp: startRecording_def stopPlayback_def update_looper_def exclusive_def
      split: option.splits intro!: list_all_update dest: list_all_nth)

lemma excl_startPlayback:
  "list_all exclusive (loopers s) \<Longrightarrow> list_all exclusive (loopers (snd (startPlayback i s)))"
  by (auto simp: startPlayback_def stopRecording_def Let_def update_looper_def update_voice_def
      exclusive_def split: option.splits intro!: list_all_update dest: list_all_nth)

lemma excl_clearLoop:
  "list_all exclusive (loopers s) \<Longrightarrow> list_all exclusive (loopers (snd (clearLoop i s)))"
  by (auto simp: clearLoop_def stopPlayback_def stopRecording_def Let_def update_looper_def
      update_voice_def exclusive_def split: option.splits intro!: list_all_update
      dest: list_all_nth)


lemma recordLoop_frame:
  "recordLoop i n input l =
     l\<lparr>recordBufferData := recordBufferData (recordLoop i n input l),
       writePosition := writePosition (recordLoop i n input l)\<rparr>"
proof (induction i n input l rule: recordLoop.induct)
  case (1 i n input l)
  show ?case
  proof (cases "i < n")
    case True
    let ?l = "l\<lparr>recordBufferData := (recordBufferData l)[writePosition l := readSample input i],
                writePosition := Suc (writePosition l)\<rparr>"
    have r: "recordLoop i n input l = recordLoop (Suc i) n input ?l"
      using True by (subst recordLoop.simps) simp
    have "recordLoop (Suc i) n input ?l =
       ?l\<lparr>recordBufferData := recordBufferData (recordLoop (Suc i) n input ?l),
         writePosition := writePosition (recordLoop (Suc i) n input ?l)\<rparr>"
      using "1.IH" [OF True] .
    then show ?thesis
      unfolding r by simp
  next
    case False
    then have "recordLoop i n input l = l" by (subst recordLoop.simps) simp
    then show ?thesis by simp
  qed
qed


lemma recordLoop_writePosition:
  "writePosition (recordLoop i n input l) = writePosition l + (n - i)"
proof (induction i n input l rule: recordLoop.induct)
  case (1 i n input l)
  show ?case
  proof (cases "i < n")
    case True
    then show ?thesis
      using "1.IH" by (subst recordLoop.simps) simp
  next
    case False
    then show ?thesis by (subst recordLoop.simps) simp
  qed
qed

lemma recordLoop_length:
  "length (recordBufferData (recordLoop i n input l)) = length (recordBufferData l)"
proof (induction i n input l rule: recordLoop.induct)
  case (1 i n input l)
  show ?case
  proof (cases "i < n")
    case True
    then show ?thesis
      using "1.IH" by (subst recordLoop.simps) simp
  next
    case False
    then show ?thesis by (subst recordLoop.simps) simp
  qed
qed

lemma recordLoop_nth:
  "k < length (recordBufferData l) \<Longrightarrow>
     recordBufferData (recordLoop i n input l) ! k =
       (if writePosition l \<le> k \<and> k < writePosition l + (n - i)
        then readSample input (i + (k - writePosition l))
        else recordBufferData l ! k)"
proof (induction i n input l arbitrary: k rule: recordLoop.induct)
  case (1 i n input l)
  show ?case
  proof (cases "i < n")
    case True
    let ?l = "l\<lparr>recordBufferData := (recordBufferData l)[writePosition l := readSample input i],
                writePosition := Suc (writePosition l)\<rparr>"
    have r: "recordLoop i n input l = recordLoop (Suc i) n input ?l"
      using True by (subst recordLoop.simps) simp
    have k: "k < length (recordBufferData ?l)" using "1.prems" by simp
    consider "k = writePosition l" | "k < writePosition l" | "writePosition l < k"
      by arith
    then show ?thesis
    proof cases
      case 1
      then show ?thesis
        unfolding r "1.IH" [OF True k] using True "1.prems" by auto
    next
      case 2
      then show ?thesis
        unfolding r "1.IH" [OF True k] using True "1.prems" by auto
    next
      case 3
      then show ?thesis
        unfolding r "1.IH" [OF True k] using True "1.prems"
        by (auto simp: Suc_diff_Suc)
    qed
  next
    case False
    then have "recordLoop i n input l = l" by (subst recordLoop.simps) simp
    then show ?thesis using False by auto
  qed
qed

lemma recordLoop_other_fields:
  "isRecording (recordLoop i n input l) = isRecording l"
  "isPlaying (recordLoop i n input l) = isPlaying l"
  "bufferLength (recordLoop i n input l) = bufferLength l"
  "recordedLength (recordLoop i n input l) = recordedLength l"
  "bufferSource (recordLoop i n input l) = bufferSource l"
  "targetPlaybackRate (recordLoop i n input l) = targetPlaybackRate l"
  by (subst recordLoop_frame, simp)+

text \<open>The loop as one assignment, when the block fits into the rest of the buffer.\<close>

lemma recordLoop_closed:
  assumes "n \<le> length input"
    and "writePosition l + n \<le> length (recordBufferData l)"
  shows "recordLoop 0 n input l =
           l\<lparr>recordBufferData :=
                take (writePosition l) (recordBufferData l) @ take n input
                @ drop (writePosition l + n) (recordBufferData l),
             writePosition := writePosition l + n\<rparr>"
proof -
  let ?d = "recordBufferData l" and ?w = "writePosition l"
  have "recordBufferData (recordLoop 0 n input l) = take ?w ?d @ take n input @ drop (?w + n) ?d"
  proof (rule nth_equalityI)
    show "length (recordBufferData (recordLoop 0 n input l))
            = length (take ?w ?d @ take n input @ drop (?w + n) ?d)"
      using assms by (simp add: recordLoop_length)
  next
    fix k
    assume "k < length (recordBufferData (recordLoop 0 n input l))"
    then have k: "k < length ?d" by (simp add: recordLoop_length)
    show "recordBufferData (recordLoop 0 n input l) ! k
            = (take ?w ?d @ take n input @ drop (?w + n) ?d) ! k"
      using assms k by (auto simp: recordLoop_nth nth_append readSample_def)
  qed
  then show ?thesis
    by (subst recordLoop_frame) (simp add: recordLoop_writePosition)
qed

lemma onaudioprocess_idle:
  "i < length (loopers s) \<Longrightarrow> \<not> isRecording (loopers s ! i) \<Longrightarrow>
     onaudioprocess i input s = (None, s)"
  by (simp add: onaudioprocess_def)

lemma onaudioprocess_full:
  "i < length (loopers s) \<Longrightarrow> isRecording (loopers s ! i) \<Longrightarrow>
   bufferLength (loopers s ! i) \<le> writePosition (loopers s ! i) \<Longrightarrow>
     onaudioprocess i input s = (None, update_looper i (\<lambda>l. l\<lparr>isRecording := False\<rparr>) s)"
  by (simp add: onaudioprocess_def stopRecording_def)

lemma onaudioprocess_append:
  assumes "i < length (loopers s)" and "isRecording (loopers s ! i)"
    and "writePosition (loopers s ! i) < bufferLength (loopers s ! i)"
    and "length (recordBufferData (loopers s ! i)) = bufferLength (loopers s ! i)"
  shows "onaudioprocess i input s =
     (None, update_looper i
        (\<lambda>l. l\<lparr>recordBufferData :=
                   take (writePosition l) (recordBufferData l)
                   @ take (bufferLength l - writePosition l) input
                   @ drop (writePosition l + min (length input) (bufferLength l - writePosition l))
                       (recordBufferData l),
                 writePosition :=
                   writePosition l + min (length input) (bufferLength l - writePosition l),
                 recordedLength :=
                   writePosition l + min (length input) (bufferLength l - writePosition l)\<rparr>) s)"
proof -
  let ?l = "loopers s ! i"
  let ?c = "min (length input) (bufferLength ?l - writePosition ?l)"
  have c: "nat (int (bufferLength ?l) - int (writePosition ?l))
             = bufferLength ?l - writePosition ?l"
    by simp
  have "recordLoop 0 ?c input ?l =
          ?l\<lparr>recordBufferData :=
                take (writePosition ?l) (recordBufferData ?l) @ take ?c input
                @ drop (writePosition ?l + ?c) (recordBufferData ?l),
             writePosition := writePosition ?l + ?c\<rparr>"
    using assms by (intro recordLoop_closed) simp_all
  moreover have "take ?c input = take (bufferLength ?l - writePosition ?l) input"
    by (simp add: min_def)
  ultimately show ?thesis
    using assms(1-3) by (simp add: onaudioprocess_def Let_def update_looper_def c)
qed


lemma excl_onaudioprocess:
  "list_all exclusive (loopers s) \<Longrightarrow>
     list_all exclusive (loopers (snd (onaudioprocess i input s)))"
  by (auto simp: onaudioprocess_def stopRecording_def Let_def update_looper_def exclusive_def
      recordLoop_other_fields intro!: list_all_update dest: list_all_nth)

lemma excl_updateLooper:
  "list_all exclusive (loopers s) \<Longrightarrow> list_all exclusive (loopers (snd (updateLooper i s)))"
  by (auto simp: updateLooper_def Let_def update_looper_def update_voice_def exclusive_def
      split: option.splits intro!: list_all_update dest: list_all_nth)

lemma excl_updateLooperParameters:
  "list_all exclusive (loopers s) \<Longrightarrow>
     list_all exclusive (loopers (snd (updateLooperParameters s)))"
  unfolding updateLooperParameters_def
  by (rule sequence_keeps [where Q = "\<lambda>s. list_all exclusive (loopers s)"])
     (auto simp: excl_updateLooper)

lemma excl_setGlitchTarget:
  "list_all exclusive (loopers s) \<Longrightarrow>
     list_all exclusive (loopers (snd (setGlitchTarget i x s)))"
  by (simp add: setGlitchTarget_def)

lemma excl_setTargetPlaybackRate:
  "list_all exclusive (loopers s) \<Longrightarrow>
     list_all exclusive (loopers (snd (setTargetPlaybackRate i r s)))"
  by (auto simp: setTargetPlaybackRate_def update_looper_def exclusive_def
      intro!: list_all_update dest: list_all_nth)

lemma excl_onDeviceOrientation:
  "list_all exclusive (loopers s) \<Longrightarrow>
     list_all exclusive (loopers (snd (onDeviceOrientation g b a s)))"
  unfolding onDeviceOrientation_def Let_def
  by (rule sequence_keeps [where Q = "\<lambda>s. list_all exclusive (loopers s)"])
     (auto simp: excl_setGlitchTarget excl_setTargetPlaybackRate)

lemma excl_exec:
  "list_all exclusive (loopers s) \<Longrightarrow> list_all exclusive (loopers (exec c s))"
  by (cases c)
     (simp_all add: excl_startRecording excl_stopRecording excl_startPlayback excl_stopPlayback
        excl_clearLoop excl_onaudioprocess excl_updateLooperParameters
        excl_onDeviceOrientation reverbSliderInput_def Let_def)

lemma excl_run:
  "list_all exclusive (loopers s) \<Longrightarrow> list_all exclusive (loopers (run cs s))"
  by (induction cs arbitrary: s) (simp_all add: excl_exec)


lemma copyRecorded_length: "length (copyRecorded i n src dst) = length dst"
proof (induction i n src dst rule: copyRecorded.induct)
  case (1 i n src dst)
  show ?case
  proof (cases "i < n")
    case True
    then show ?thesis using "1.IH" by (subst copyRecorded.simps) simp
  next
    case False
    then show ?thesis by (subst copyRecorded.simps) simp
  qed
qed

lemma copyRecorded_nth:
  "k < length dst \<Longrightarrow>
     copyRecorded i n src dst ! k = (if i \<le> k \<and> k < n then readSample src k else dst ! k)"
proof (induction i n src dst arbitrary: k rule: copyRecorded.induct)
  case (1 i n src dst)
  show ?case
  proof (cases "i < n")
    case True
    have r: "copyRecorded i n src dst = copyRecorded (Suc i) n src (dst[i := readSample src i])"
      using True by (subst copyRecorded.simps) simp
    have k: "k < length (dst[i := readSample src i])" using "1.prems" by simp
    show ?thesis
      unfolding r "1.IH" [OF True k] using True "1.prems"
      by (auto simp: nth_list_update not_less_eq_eq)
  next
    case False
    then have "copyRecorded i n src dst = dst" by (subst copyRecorded.simps) simp
    then show ?thesis using False by auto
  qed
qed

lemma copyRecorded_take:
  assumes "n \<le> length src" and "length dst = n"
  shows "copyRecorded 0 n src dst = take n src"
proof (rule nth_equalityI)
  show "length (copyRecorded 0 n src dst) = length (take n src)"
    using assms by (simp add: copyRecorded_length)
next
  fix k
  assume "k < length (copyRecorded 0 n src dst)"
  then have "k < n" using assms by (simp add: copyRecorded_length)
  then show "copyRecorded 0 n src dst ! k = take n src ! k"
    using assms by (simp add: copyRecorded_nth readSample_def)
qed

lemma not_recording_update:
  "\<not> isRecording l \<Longrightarrow> l\<lparr>isRecording := False\<rparr> = l"
  "\<not> isRecording l \<Longrightarrow>
     l\<lparr>isRecording := False, bufferSource := b, isPlaying := p\<rparr>
       = l\<lparr>bufferSource := b, isPlaying := p\<rparr>"
  by (cases l, simp)+

lemma startPlayback_plays:
  assumes "i < length (loopers s)"
    and "recordedLength (loopers s ! i) \<noteq> 0"
    and "recordedLength (loopers s ! i) \<le> length (recordBufferData (loopers s ! i))"
    and "targetPlaybackRate (loopers s ! i) = Some r"
  shows "startPlayback i s =
     (None,
      update_looper i
        (\<lambda>l. l\<lparr>isRecording := False, bufferSource := Some (length (voices s)),
               isPlaying := True\<rparr>)
        (s\<lparr>voices := voices s
             @ [played_voice (take (recordedLength (loopers s ! i))
                                (recordBufferData (loopers s ! i))) r]\<rparr>))"
proof -
  let ?l = "loopers s ! i"
  have cp: "copyRecorded 0 (recordedLength ?l) (recordBufferData ?l)
              (replicate (recordedLength ?l) (Sample 0))
            = take (recordedLength ?l) (recordBufferData ?l)"
    using assms(3) by (intro copyRecorded_take) simp_all
  show ?thesis
  proof (cases "isRecording ?l")
    case True
    then show ?thesis
      using assms
      by (simp add: startPlayback_def stopRecording_def Let_def update_looper_def
          update_voice_def cp played_voice_def createBufferSource_def)
  next
    case False
    then show ?thesis
      using assms
      by (simp add: startPlayback_def stopRecording_def Let_def update_looper_def
          update_voice_def cp played_voice_def createBufferSource_def not_recording_update)
  qed
qed

lemma startPlayback_empty:
  assumes "i < length (loopers s)" and "recordedLength (loopers s ! i) = 0"
  shows "startPlayback i s = (None, update_looper i (\<lambda>l. l\<lparr>isRecording := False\<rparr>) s)"
proof (cases "isRecording (loopers s ! i)")
  case True
  then show ?thesis
    using assms by (simp add: startPlayback_def stopRecording_def Let_def update_looper_def)
next
  case False
  then show ?thesis
    using assms
    by (simp add: startPlayback_def Let_def update_looper_def not_recording_update(1))
qed



lemma upt_4: "[0..<4] = [0, 1, 2, 3]"
  by (simp add: upt_rec)

lemma step_fresh: "step (newParameterSmoother 0 f) = (0, newParameterSmoother 0 f)"
  by (simp add: step_def newParameterSmoother_def)

lemma createLooper_fields:
  "index (createLooper i sr) = i"
  "bufferLength (createLooper i sr) = sr * 30"
  "recordBufferData (createLooper i sr) = replicate (sr * 30) (Sample 0)"
  "writePosition (createLooper i sr) = 0"
  "recordedLength (createLooper i sr) = 0"
  "bufferSource (createLooper i sr) = None"
  "isRecording (createLooper i sr) = False"
  "isPlaying (createLooper i sr) = False"
  "glitchIntensity (createLooper i sr) = 0"
  "playbackRate (createLooper i sr) = 1"
  "targetPlaybackRate (createLooper i sr) = Some 1"
  "stutterRate (createLooper i sr) = 0"
  "feedbackAmount (createLooper i sr) = 0"
  by (simp_all add: createLooper_def)

lemma createLooper_update_id:
  "(createLooper i sr)\<lparr>glitchIntensity := 0, playbackRate := 1, stutterRate := 0\<rparr>
     = createLooper i sr"
  by (simp add: createLooper_def)

lemma startOscillators_initial:
  "startOscillators sr initial_engine =
     \<lparr>isPlaying_global = True, xValue = 0, yValue = 0, rotation = 0,
      reverbWet = Some 0, reverbDry = Some 1,
      loopers = [createLooper 0 sr, createLooper 1 sr, createLooper 2 sr, createLooper 3 sr],
      parameterSmoothers = [fresh_smoothers, fresh_smoothers, fresh_smoothers, fresh_smoothers],
      voices = []\<rparr>"
  by (simp add: startOscillators_def initial_engine_def updateLooperParameters_def upt_4
      updateLooper_def Let_def step_fresh update_looper_def createLooper_fields
      createLooper_update_id fresh_smoothers_def or_1_def)


subsection \<open>Transport exclusivity\<close>


lemma excl_started:
  "list_all exclusive (loopers (startOscillators sampleRate initial_engine))"
  by (simp add: startOscillators_initial exclusive_def createLooper_fields)

lemma nth_started:
  "i < 4 \<Longrightarrow> loopers (startOscillators sr initial_engine) ! i = createLooper i sr"
  "length (loopers (startOscillators sr initial_engine)) = 4"
  "voices (startOscillators sr initial_engine) = []"
  "length (parameterSmoothers (startOscillators sr initial_engine)) = 4"
  "i < 4 \<Longrightarrow> parameterSmoothers (startOscillators sr initial_engine) ! i = fresh_smoothers"
  "reverbWet (startOscillators sr initial_engine) = Some 0"
  "reverbDry (startOscillators sr initial_engine) = Some 1"
  by (auto simp: startOscillators_initial nth_Cons' less_Suc_eq eval_nat_numeral)

lemma sequence_length:
  assumes "\<And>f s. f \<in> set fs \<Longrightarrow> length (loopers (snd (f s))) = length (loopers s)"
  shows "length (loopers (snd (sequence fs s))) = length (loopers s)"
  by (rule sequence_keeps [where Q = "\<lambda>s'. length (loopers s') = length (loopers s)"])
     (simp_all add: assms)

lemma length_loopers_stopPlayback:
  "length (loopers (snd (stopPlayback i s))) = length (loopers s)"
  by (simp add: stopPlayback_def split: option.splits)

lemma length_loopers_stopRecording:
  "length (loopers (snd (stopRecording i s))) = length (loopers s)"
  by (simp add: stopRecording_def)

lemma length_loopers_exec: "length (loopers (exec c s)) = length (loopers s)"
proof (cases c)
  case (StartRecording i)
  then show ?thesis
    by (auto simp: startRecording_def length_loopers_stopPlayback simp del: sequence.simps
        intro!: sequence_length)
next
  case (StopRecording i)
  then show ?thesis by (simp add: length_loopers_stopRecording)
next
  case (StartPlayback i)
  then show ?thesis
    by (simp add: startPlayback_def stopRecording_def Let_def split: option.splits)
next
  case (StopPlayback i)
  then show ?thesis by (simp add: length_loopers_stopPlayback)
next
  case (ClearLoop i)
  then show ?thesis
    by (auto simp: clearLoop_def length_loopers_stopPlayback length_loopers_stopRecording
        simp del: sequence.simps intro!: sequence_length)
next
  case (AudioProcess i input)
  then show ?thesis
    by (simp add: onaudioprocess_def stopRecording_def Let_def)
next
  case UpdateParameters
  have "length (loopers (snd (updateLooper i s))) = length (loopers s)" for i s
    by (simp add: updateLooper_def Let_def split: option.splits)
  with UpdateParameters show ?thesis
    by (auto simp: updateLooperParameters_def simp del: sequence.simps intro!: sequence_length)
next
  case (DeviceOrientation g b a)
  have "length (loopers (snd (onDeviceOrientation g b a s))) =
        length (loopers (s\<lparr>xValue := \<lfloor>g + 1 / 2\<rfloor>, yValue := \<lfloor>b + 1 / 2\<rfloor>,
                           rotation := \<lfloor>a + 1 / 2\<rfloor>\<rparr>))"
    unfolding onDeviceOrientation_def Let_def
    by (rule sequence_length) (auto simp: setGlitchTarget_def setTargetPlaybackRate_def)
  with DeviceOrientation show ?thesis by simp
next
  case (ReverbInput p)
  then show ?thesis by (simp add: reverbSliderInput_def Let_def)
qed

lemma length_loopers_run: "length (loopers (run cs s)) = length (loopers s)"
  by (induction cs arbitrary: s) (simp_all add: length_loopers_exec)

text \<open>
  C2. In a started engine no looper is recording and playing at once, whatever sequence of
  transport calls (\<open>startRecording\<close>, \<open>stopRecording\<close>, \<open>startPlayback\<close>,
  \<open>stopPlayback\<close>, \<open>clearLoop\<close>), recording callbacks, update frames, orientation
  samples and slider inputs has run; and from any state in which no looper is recording
  and playing at once, every such sequence leads to a state of that kind again.
\<close>

theorem transport_exclusivity:
  "(\<forall>l \<in> set (loopers (run cs (startOscillators sampleRate initial_engine))).
       \<not> (isRecording l \<and> isPlaying l))
   \<and> ((\<forall>l \<in> set (loopers s). \<not> (isRecording l \<and> isPlaying l)) \<longrightarrow>
        (\<forall>l \<in> set (loopers (run cs s)). \<not> (isRecording l \<and> isPlaying l)))"
proof -
  have "list_all exclusive (loopers (run cs (startOscillators sampleRate initial_engine)))"
    by (rule excl_run [OF excl_started])
  moreover have "list_all exclusive (loopers s) \<longrightarrow> list_all exclusive (loopers (run cs s))"
    by (simp add: excl_run)
  ultimately show ?thesis
    by (simp add: list_all_iff exclusive_def)
qed

theorem transport_exclusivity_witness:
  "loopers (run [StartRecording 0, AudioProcess 0 [Sample 1, Sample 2], StartPlayback 0,
                 StartRecording 0]
              (startOscillators 44100 initial_engine)) \<noteq> []
   \<and> \<not> (isRecording (hd (loopers
          (run [StartRecording 0, AudioProcess 0 [Sample 1, Sample 2], StartPlayback 0,
                StartRecording 0]
             (startOscillators 44100 initial_engine))))
        \<and> isPlaying (hd (loopers
          (run [StartRecording 0, AudioProcess 0 [Sample 1, Sample 2], StartPlayback 0,
                StartRecording 0]
             (startOscillators 44100 initial_engine)))))"
proof -
  let ?cs = "[StartRecording 0, AudioProcess 0 [Sample 1, Sample 2], StartPlayback 0,
              StartRecording 0]"
  let ?s = "run ?cs (startOscillators 44100 initial_engine)"
  have len: "length (loopers ?s) = 4"
    by (simp only: length_loopers_run nth_started)
  then have ne: "loopers ?s \<noteq> []" by auto
  then have "hd (loopers ?s) \<in> set (loopers ?s)" by simp
  then show ?thesis
    using transport_exclusivity [of ?cs 44100] ne by blast
qed


subsection \<open>Playing an empty looper\<close>


lemma startRecording_idle:
  "i < length (loopers s) \<Longrightarrow> \<not> isPlaying (loopers s ! i) \<Longrightarrow>
     startRecording i s =
       (None, update_looper i
          (\<lambda>l. l\<lparr>writePosition := 0, recordedLength := 0, isRecording := True\<rparr>) s)"
  by (simp add: startRecording_def)

text \<open>
  C4, as the code has it. \<open>startPlayback\<close> on a looper with \<open>recordedLength = 0\<close> first
  stops a recording in progress and then returns: no voice is created, \<open>bufferSource\<close> and
  \<open>isPlaying\<close> keep their values, and the only field that can change is \<open>isRecording\<close>,
  which is cleared. For a looper that is not recording the whole state is unchanged.
\<close>

theorem play_on_empty_creates_no_voice:
  assumes "i < length (loopers s)" and "recordedLength (loopers s ! i) = 0"
  shows "startPlayback i s =
           (None, s\<lparr>loopers := (loopers s)[i := (loopers s ! i)\<lparr>isRecording := False\<rparr>]\<rparr>)
       \<and> voices (snd (startPlayback i s)) = voices s
       \<and> isPlaying (loopers (snd (startPlayback i s)) ! i) = isPlaying (loopers s ! i)
       \<and> bufferSource (loopers (snd (startPlayback i s)) ! i) = bufferSource (loopers s ! i)
       \<and> (\<not> isRecording (loopers s ! i) \<longrightarrow> snd (startPlayback i s) = s)"
  using assms
  by (simp add: startPlayback_empty update_looper_def not_recording_update(1))

theorem play_on_empty_creates_no_voice_witness:
  "(0::nat) < length (loopers (snd (startRecording 0 (startOscillators 44100 initial_engine))))
   \<and> recordedLength
         (loopers (snd (startRecording 0 (startOscillators 44100 initial_engine))) ! 0) = 0
   \<and> fst (startPlayback 0 (snd (startRecording 0 (startOscillators 44100 initial_engine))))
         = None
   \<and> voices (snd (startPlayback 0
         (snd (startRecording 0 (startOscillators 44100 initial_engine))))) = []
   \<and> \<not> isRecording (loopers (startOscillators 44100 initial_engine) ! 0)
   \<and> snd (startPlayback 0 (startOscillators 44100 initial_engine))
         = startOscillators 44100 initial_engine"
proof -
  let ?e = "startOscillators 44100 initial_engine"
  let ?r = "snd (startRecording 0 ?e)"
  have s: "?r = update_looper 0
             (\<lambda>l. l\<lparr>writePosition := 0, recordedLength := 0, isRecording := True\<rparr>) ?e"
    by (simp add: startRecording_idle nth_started createLooper_fields)
  have h1: "0 < length (loopers ?r)"
    by (simp add: s nth_started)
  have h2: "recordedLength (loopers ?r ! 0) = 0"
    by (simp add: s nth_loopers_update_looper nth_started)
  have v: "voices ?r = []"
    by (simp add: s nth_started)
  have h3: "0 < length (loopers ?e)" "recordedLength (loopers ?e ! 0) = 0"
    "\<not> isRecording (loopers ?e ! 0)"
    by (simp_all add: nth_started createLooper_fields)
  note t1 = play_on_empty_creates_no_voice [OF h1 h2]
  note t2 = play_on_empty_creates_no_voice [OF h3(1,2)]
  have a: "fst (startPlayback 0 ?r) = None"
    using t1 [THEN conjunct1] by simp
  have b: "voices (snd (startPlayback 0 ?r)) = []"
    using t1 [THEN conjunct2, THEN conjunct1] v by simp
  have c: "snd (startPlayback 0 ?e) = ?e"
    using t2 h3(3) by blast
  show ?thesis
    using h1 h2 a b h3(3) c by (intro conjI)
qed

text \<open>
  The claim as stated fails for a looper that is recording: after \<open>startRecording(0)\<close> on
  the started engine the looper has \<open>recordedLength = 0\<close> and is recording, and
  \<open>startPlayback(0)\<close> leaves it not recording.
\<close>

theorem play_on_empty_stops_recording_counterexample:
  "recordedLength
      (loopers (snd (startRecording 0 (startOscillators 44100 initial_engine))) ! 0) = 0
   \<and> isRecording
      (loopers (snd (startRecording 0 (startOscillators 44100 initial_engine))) ! 0)
   \<and> \<not> isRecording
      (loopers (snd (startPlayback 0
         (snd (startRecording 0 (startOscillators 44100 initial_engine))))) ! 0)"
proof -
  let ?e = "startOscillators 44100 initial_engine"
  let ?r = "snd (startRecording 0 ?e)"
  have s: "?r = update_looper 0
             (\<lambda>l. l\<lparr>writePosition := 0, recordedLength := 0, isRecording := True\<rparr>) ?e"
    by (simp add: startRecording_idle nth_started createLooper_fields)
  have l: "0 < length (loopers ?r)"
    by (simp add: s nth_started)
  have r: "recordedLength (loopers ?r ! 0) = 0" "isRecording (loopers ?r ! 0)"
    by (simp_all add: s nth_loopers_update_looper nth_started)
  have "\<not> isRecording (loopers (snd (startPlayback 0 ?r)) ! 0)"
    using l by (simp add: startPlayback_empty [OF l r(1)] nth_loopers_update_looper)
  then show ?thesis using r by simp
qed


subsection \<open>Recording capacity\<close>


lemma cap_stopRecording:
  "list_all (within_capacity sr) (loopers s) \<Longrightarrow>
     list_all (within_capacity sr) (loopers (snd (stopRecording i s)))"
  by (auto simp: stopRecording_def update_looper_def within_capacity_def
      intro!: list_all_update dest: list_all_nth)

lemma cap_stopPlayback:
  "list_all (within_capacity sr) (loopers s) \<Longrightarrow>
     list_all (within_capacity sr) (loopers (snd (stopPlayback i s)))"
  by (auto simp: stopPlayback_def update_looper_def within_capacity_def split: option.splits
      intro!: list_all_update dest: list_all_nth)

lemma cap_startRecording:
  "list_all (within_capacity sr) (loopers s) \<Longrightarrow>
     list_all (within_capacity sr) (loopers (snd (startRecording i s)))"
  by (auto simp: startRecording_def stopPlayback_def update_looper_def within_capacity_def
      split: option.splits intro!: list_all_update dest: list_all_nth)

lemma cap_startPlayback:
  "list_all (within_capacity sr) (loopers s) \<Longrightarrow>
     list_all (within_capacity sr) (loopers (snd (startPlayback i s)))"
  by (auto simp: startPlayback_def stopRecording_def Let_def update_looper_def update_voice_def
      within_capacity_def split: option.splits intro!: list_all_update dest: list_all_nth)

lemma cap_clearLoop:
  "list_all (within_capacity sr) (loopers s) \<Longrightarrow>
     list_all (within_capacity sr) (loopers (snd (clearLoop i s)))"
  by (auto simp: clearLoop_def stopPlayback_def stopRecording_def Let_def update_looper_def
      update_voice_def within_capacity_def split: option.splits intro!: list_all_update
      dest: list_all_nth)

lemma cap_onaudioprocess:
  "list_all (within_capacity sr) (loopers s) \<Longrightarrow>
     list_all (within_capacity sr) (loopers (snd (onaudioprocess i input s)))"
  by (auto simp: onaudioprocess_def stopRecording_def Let_def update_looper_def
      within_capacity_def recordLoop_other_fields recordLoop_length recordLoop_writePosition
      intro!: list_all_update dest: list_all_nth)

lemma cap_updateLooper:
  "list_all (within_capacity sr) (loopers s) \<Longrightarrow>
     list_all (within_capacity sr) (loopers (snd (updateLooper i s)))"
  by (auto simp: updateLooper_def Let_def update_looper_def update_voice_def within_capacity_def
      split: option.splits intro!: list_all_update dest: list_all_nth)

lemma cap_setTargetPlaybackRate:
  "list_all (within_capacity sr) (loopers s) \<Longrightarrow>
     list_all (within_capacity sr) (loopers (snd (setTargetPlaybackRate i r s)))"
  by (auto simp: setTargetPlaybackRate_def update_looper_def within_capacity_def
      intro!: list_all_update dest: list_all_nth)

lemma cap_exec:
  assumes "list_all (within_capacity sr) (loopers s)"
  shows "list_all (within_capacity sr) (loopers (exec c s))"
proof (cases c)
  case UpdateParameters
  have "list_all (within_capacity sr) (loopers (snd (updateLooperParameters s)))"
    unfolding updateLooperParameters_def
    by (rule sequence_keeps [where Q = "\<lambda>s. list_all (within_capacity sr) (loopers s)"])
       (auto simp: cap_updateLooper assms)
  with UpdateParameters show ?thesis by simp
next
  case (DeviceOrientation g b a)
  have "list_all (within_capacity sr) (loopers (snd (onDeviceOrientation g b a s)))"
    unfolding onDeviceOrientation_def Let_def
    by (rule sequence_keeps [where Q = "\<lambda>s. list_all (within_capacity sr) (loopers s)"])
       (auto simp: cap_setTargetPlaybackRate setGlitchTarget_def assms)
  with DeviceOrientation show ?thesis by simp
qed (simp_all add: assms cap_startRecording cap_stopRecording cap_startPlayback
       cap_stopPlayback cap_clearLoop cap_onaudioprocess reverbSliderInput_def Let_def)

lemma cap_run:
  "list_all (within_capacity sr) (loopers s) \<Longrightarrow>
     list_all (within_capacity sr) (loopers (run cs s))"
  by (induction cs arbitrary: s) (simp_all add: cap_exec)

lemma cap_started:
  "list_all (within_capacity sr) (loopers (startOscillators sr initial_engine))"
  by (simp add: startOscillators_initial within_capacity_def createLooper_fields)

text \<open>One callback on a looper that is recording and within its capacity.\<close>

lemma onaudioprocess_recording:
  assumes i: "i < length (loopers s)" and c: "within_capacity sr (loopers s ! i)"
    and r: "isRecording (loopers s ! i)"
  shows "fst (onaudioprocess i input s) = None"
    and "loopers (snd (onaudioprocess i input s)) ! i =
       (if writePosition (loopers s ! i) = sr * 30
        then (loopers s ! i)\<lparr>isRecording := False\<rparr>
        else (loopers s ! i)
          \<lparr>recordBufferData :=
              take (writePosition (loopers s ! i)) (recordBufferData (loopers s ! i))
              @ take (sr * 30 - writePosition (loopers s ! i)) input
              @ drop (writePosition (loopers s ! i)
                       + min (length input) (sr * 30 - writePosition (loopers s ! i)))
                  (recordBufferData (loopers s ! i)),
            writePosition := writePosition (loopers s ! i)
                       + min (length input) (sr * 30 - writePosition (loopers s ! i)),
            recordedLength := writePosition (loopers s ! i)
                       + min (length input) (sr * 30 - writePosition (loopers s ! i))\<rparr>)"
proof -
  let ?l = "loopers s ! i"
  have b: "bufferLength ?l = sr * 30" "length (recordBufferData ?l) = bufferLength ?l"
    "writePosition ?l \<le> sr * 30"
    using c by (simp_all add: within_capacity_def)
  show "fst (onaudioprocess i input s) = None"
    by (simp add: onaudioprocess_def stopRecording_def Let_def)
  show "loopers (snd (onaudioprocess i input s)) ! i =
       (if writePosition ?l = sr * 30 then ?l\<lparr>isRecording := False\<rparr>
        else ?l\<lparr>recordBufferData :=
              take (writePosition ?l) (recordBufferData ?l)
              @ take (sr * 30 - writePosition ?l) input
              @ drop (writePosition ?l + min (length input) (sr * 30 - writePosition ?l))
                  (recordBufferData ?l),
            writePosition := writePosition ?l + min (length input) (sr * 30 - writePosition ?l),
            recordedLength := writePosition ?l
                       + min (length input) (sr * 30 - writePosition ?l)\<rparr>)"
  proof (cases "writePosition ?l = sr * 30")
    case True
    then show ?thesis
      using i r b by (simp add: onaudioprocess_full nth_loopers_update_looper)
  next
    case False
    then have "writePosition ?l < bufferLength ?l" using b by simp
    then show ?thesis
      using i r b False
      by (simp add: onaudioprocess_append nth_loopers_update_looper)
  qed
qed


text \<open>
  What a callback leaves alone: the voices, the other loopers, and of its own looper
  everything but the buffer, the two positions and \<open>isRecording\<close>.
\<close>

lemma onaudioprocess_frame:
  "voices (snd (onaudioprocess i input s)) = voices s"
  "length (loopers (snd (onaudioprocess i input s))) = length (loopers s)"
  "j < length (loopers s) \<Longrightarrow> j \<noteq> i \<Longrightarrow>
     loopers (snd (onaudioprocess i input s)) ! j = loopers s ! j"
  "i < length (loopers s) \<Longrightarrow>
     targetPlaybackRate (loopers (snd (onaudioprocess i input s)) ! i)
       = targetPlaybackRate (loopers s ! i)"
  "i < length (loopers s) \<Longrightarrow>
     isPlaying (loopers (snd (onaudioprocess i input s)) ! i) = isPlaying (loopers s ! i)"
  "i < length (loopers s) \<Longrightarrow>
     bufferSource (loopers (snd (onaudioprocess i input s)) ! i) = bufferSource (loopers s ! i)"
  "i < length (loopers s) \<Longrightarrow>
     bufferLength (loopers (snd (onaudioprocess i input s)) ! i) = bufferLength (loopers s ! i)"
  by (simp_all add: onaudioprocess_def stopRecording_def Let_def nth_loopers_update_looper
      recordLoop_other_fields)

lemma recorded_onaudioprocess:
  assumes i: "i < length (loopers s)" and rec: "recorded xs (loopers s ! i)"
  shows "recorded (xs @ b) (loopers (snd (onaudioprocess i b s)) ! i)"
proof -
  let ?l = "loopers s ! i"
  let ?cap = "bufferLength ?l"
  have len: "length (recordBufferData ?l) = ?cap"
    and wp: "writePosition ?l = min (length xs) ?cap"
    and rl: "recordedLength ?l = writePosition ?l"
    and tk: "take (writePosition ?l) (recordBufferData ?l) = take ?cap xs"
    and on: "isRecording ?l \<or> ?cap \<le> length xs"
    using rec unfolding recorded_def by blast+
  consider (idle) "\<not> isRecording ?l" | (full) "isRecording ?l" "?cap \<le> writePosition ?l"
    | (room) "isRecording ?l" "writePosition ?l < ?cap"
    by linarith
  then show ?thesis
  proof cases
    case idle
    then have "?cap \<le> length xs" using on by simp
    then show ?thesis
      using i idle len wp rl tk by (simp add: onaudioprocess_idle recorded_def)
  next
    case full
    then have "?cap \<le> length xs" using wp by simp
    then show ?thesis
      using i full len wp rl tk
      by (simp add: onaudioprocess_full nth_loopers_update_looper recorded_def)
  next
    case room
    then have short: "length xs < ?cap" "writePosition ?l = length xs"
      using wp by simp_all
    have tk': "take (length xs) (recordBufferData ?l) = xs"
      using tk short by simp
    have "take (length xs + min (length b) (?cap - length xs))
            (take (length xs) (recordBufferData ?l) @ take (?cap - length xs) b
             @ drop (length xs + min (length b) (?cap - length xs)) (recordBufferData ?l))
          = xs @ take (?cap - length xs) b"
      unfolding tk' by (simp add: min_def)
    then show ?thesis
      using i room len short
      by (simp add: onaudioprocess_append [OF i room(1) room(2) len]
          nth_loopers_update_looper recorded_def)
  qed
qed

lemma recorded_blocks:
  assumes "i < length (loopers s)" and "recorded xs (loopers s ! i)"
  shows "recorded (xs @ concat blocks) (loopers (run (map (AudioProcess i) blocks) s) ! i)
       \<and> voices (run (map (AudioProcess i) blocks) s) = voices s
       \<and> length (loopers (run (map (AudioProcess i) blocks) s)) = length (loopers s)
       \<and> (\<forall>j < length (loopers s). j \<noteq> i \<longrightarrow>
             loopers (run (map (AudioProcess i) blocks) s) ! j = loopers s ! j)
       \<and> targetPlaybackRate (loopers (run (map (AudioProcess i) blocks) s) ! i)
             = targetPlaybackRate (loopers s ! i)
       \<and> isPlaying (loopers (run (map (AudioProcess i) blocks) s) ! i)
             = isPlaying (loopers s ! i)
       \<and> bufferSource (loopers (run (map (AudioProcess i) blocks) s) ! i)
             = bufferSource (loopers s ! i)
       \<and> bufferLength (loopers (run (map (AudioProcess i) blocks) s) ! i)
             = bufferLength (loopers s ! i)"
  using assms
proof (induction blocks arbitrary: s xs)
  case Nil
  then show ?case by simp
next
  case (Cons b blocks)
  let ?s = "snd (onaudioprocess i b s)"
  have i': "i < length (loopers ?s)"
    using Cons.prems(1) by (simp add: onaudioprocess_frame)
  have r': "recorded (xs @ b) (loopers ?s ! i)"
    using Cons.prems by (rule recorded_onaudioprocess)
  note ih = Cons.IH [OF i' r']
  show ?case
    using ih Cons.prems(1) by (simp add: onaudioprocess_frame)
qed


lemma run_append: "run (cs @ ds) s = run ds (run cs s)"
  by (induction cs arbitrary: s) simp_all

text \<open>A call of \<open>startRecording\<close> that returns normally.\<close>

lemma startRecording_ok:
  assumes "i < length (loopers s)" and "fst (startRecording i s) = None"
  shows "length (loopers (snd (startRecording i s))) = length (loopers s)"
    and "writePosition (loopers (snd (startRecording i s)) ! i) = 0"
    and "recordedLength (loopers (snd (startRecording i s)) ! i) = 0"
    and "isRecording (loopers (snd (startRecording i s)) ! i)"
    and "\<not> isPlaying (loopers (snd (startRecording i s)) ! i)"
    and "recordBufferData (loopers (snd (startRecording i s)) ! i)
           = recordBufferData (loopers s ! i)"
    and "bufferLength (loopers (snd (startRecording i s)) ! i) = bufferLength (loopers s ! i)"
    and "targetPlaybackRate (loopers (snd (startRecording i s)) ! i)
           = targetPlaybackRate (loopers s ! i)"
    and "length (voices (snd (startRecording i s))) = length (voices s)"
  using assms
  by (auto simp: startRecording_def stopPlayback_def nth_loopers_update_looper
      split: option.splits if_splits)

lemma recorded_after_startRecording:
  assumes "i < length (loopers s)" and "fst (startRecording i s) = None"
    and "length (recordBufferData (loopers s ! i)) = bufferLength (loopers s ! i)"
  shows "recorded [] (loopers (snd (startRecording i s)) ! i)"
  using assms by (simp add: recorded_def startRecording_ok)

text \<open>
  C3. In a started engine of sample rate \<open>sampleRate\<close>, after any run, every looper has a
  buffer of \<open>sampleRate \<times> 30\<close> samples, a write position within it and a recorded length
  no larger. A callback on a recording looper does not throw and keeps the looper within
  its capacity: with room left it writes the input clipped to the room, at the write
  position, and advances both positions by the number of samples written; with no room
  left it writes nothing and stops the recording. A recording that has been fed at least
  \<open>sampleRate \<times> 30\<close> samples is stopped by the next callback, with a recorded length of
  exactly \<open>sampleRate \<times> 30\<close>.
\<close>

theorem recording_capacity_bound:
  "list_all (within_capacity sampleRate)
     (loopers (run cs (startOscillators sampleRate initial_engine)))
   \<and> (i < length (loopers s) \<and> within_capacity sampleRate (loopers s ! i)
        \<and> isRecording (loopers s ! i) \<longrightarrow>
        fst (onaudioprocess i input s) = None
        \<and> within_capacity sampleRate (loopers (snd (onaudioprocess i input s)) ! i)
        \<and> loopers (snd (onaudioprocess i input s)) ! i =
           (if writePosition (loopers s ! i) = sampleRate * 30
            then (loopers s ! i)\<lparr>isRecording := False\<rparr>
            else (loopers s ! i)
              \<lparr>recordBufferData :=
                  take (writePosition (loopers s ! i)) (recordBufferData (loopers s ! i))
                  @ take (sampleRate * 30 - writePosition (loopers s ! i)) input
                  @ drop (writePosition (loopers s ! i)
                          + min (length input) (sampleRate * 30 - writePosition (loopers s ! i)))
                      (recordBufferData (loopers s ! i)),
                writePosition := writePosition (loopers s ! i)
                  + min (length input) (sampleRate * 30 - writePosition (loopers s ! i)),
                recordedLength := writePosition (loopers s ! i)
                  + min (length input) (sampleRate * 30 - writePosition (loopers s ! i))\<rparr>))
   \<and> (i < length (loopers s) \<and> within_capacity sampleRate (loopers s ! i)
        \<and> fst (startRecording i s) = None \<and> sampleRate * 30 \<le> length (concat blocks) \<longrightarrow>
        \<not> isRecording
            (loopers (run (map (AudioProcess i) (blocks @ [input]))
                        (snd (startRecording i s))) ! i)
        \<and> recordedLength
            (loopers (run (map (AudioProcess i) (blocks @ [input]))
                        (snd (startRecording i s))) ! i) = sampleRate * 30)"
proof (intro conjI impI)
  show "list_all (within_capacity sampleRate)
          (loopers (run cs (startOscillators sampleRate initial_engine)))"
    by (rule cap_run [OF cap_started])
next
  assume a: "i < length (loopers s) \<and> within_capacity sampleRate (loopers s ! i)
             \<and> isRecording (loopers s ! i)"
  then have i: "i < length (loopers s)" and c: "within_capacity sampleRate (loopers s ! i)"
    and r: "isRecording (loopers s ! i)"
    by simp_all
  show "fst (onaudioprocess i input s) = None"
    by (rule onaudioprocess_recording(1) [OF i c r])
  show "within_capacity sampleRate (loopers (snd (onaudioprocess i input s)) ! i)"
    unfolding onaudioprocess_recording(2) [OF i c r]
    using c by (auto simp: within_capacity_def)
  show "loopers (snd (onaudioprocess i input s)) ! i =
           (if writePosition (loopers s ! i) = sampleRate * 30
            then (loopers s ! i)\<lparr>isRecording := False\<rparr>
            else (loopers s ! i)
              \<lparr>recordBufferData :=
                  take (writePosition (loopers s ! i)) (recordBufferData (loopers s ! i))
                  @ take (sampleRate * 30 - writePosition (loopers s ! i)) input
                  @ drop (writePosition (loopers s ! i)
                          + min (length input) (sampleRate * 30 - writePosition (loopers s ! i)))
                      (recordBufferData (loopers s ! i)),
                writePosition := writePosition (loopers s ! i)
                  + min (length input) (sampleRate * 30 - writePosition (loopers s ! i)),
                recordedLength := writePosition (loopers s ! i)
                  + min (length input) (sampleRate * 30 - writePosition (loopers s ! i))\<rparr>)"
    by (rule onaudioprocess_recording(2) [OF i c r])
next
  assume a: "i < length (loopers s) \<and> within_capacity sampleRate (loopers s ! i)
        \<and> fst (startRecording i s) = None \<and> sampleRate * 30 \<le> length (concat blocks)"
  let ?s1 = "snd (startRecording i s)"
  let ?s2 = "run (map (AudioProcess i) blocks) ?s1"
  let ?s3 = "run (map (AudioProcess i) (blocks @ [input])) ?s1"
  from a have i: "i < length (loopers s)" and ok: "fst (startRecording i s) = None"
    and long: "sampleRate * 30 \<le> length (concat blocks)"
    and cap: "bufferLength (loopers s ! i) = sampleRate * 30"
       "length (recordBufferData (loopers s ! i)) = bufferLength (loopers s ! i)"
    by (simp_all add: within_capacity_def)
  have i1: "i < length (loopers ?s1)"
    using i ok by (simp add: startRecording_ok)
  have r1: "recorded [] (loopers ?s1 ! i)"
    using i ok cap(2) by (rule recorded_after_startRecording)
  note blocks = recorded_blocks [OF i1 r1, of blocks]
  have r2: "recorded (concat blocks) (loopers ?s2 ! i)"
    using blocks by simp
  have b2: "bufferLength (loopers ?s2 ! i) = sampleRate * 30"
    using blocks i ok cap(1) by (simp add: startRecording_ok)
  have i2: "i < length (loopers ?s2)"
    using blocks i1 by simp
  have full: "writePosition (loopers ?s2 ! i) = sampleRate * 30"
    "recordedLength (loopers ?s2 ! i) = sampleRate * 30"
    using r2 b2 long by (simp_all add: recorded_def)
  have s3: "?s3 = snd (onaudioprocess i input ?s2)"
    by (simp add: run_append)
  have "\<not> isRecording (loopers ?s3 ! i) \<and> recordedLength (loopers ?s3 ! i) = sampleRate * 30"
  proof (cases "isRecording (loopers ?s2 ! i)")
    case True
    then show ?thesis
      unfolding s3 using i2 b2 full
      by (simp add: onaudioprocess_full nth_loopers_update_looper)
  next
    case False
    then show ?thesis
      unfolding s3 using i2 full by (simp add: onaudioprocess_idle)
  qed
  then show "\<not> isRecording (loopers ?s3 ! i)"
    and "recordedLength (loopers ?s3 ! i) = sampleRate * 30"
    by simp_all
qed


theorem recording_capacity_bound_witness:
  "(0::nat) < length (loopers (snd (startRecording 0 (startOscillators 44100 initial_engine))))
   \<and> within_capacity 44100
        (loopers (snd (startRecording 0 (startOscillators 44100 initial_engine))) ! 0)
   \<and> isRecording (loopers (snd (startRecording 0 (startOscillators 44100 initial_engine))) ! 0)
   \<and> writePosition
        (loopers (snd (onaudioprocess 0 [Sample 1, Sample 2, Sample 3]
           (snd (startRecording 0 (startOscillators 44100 initial_engine))))) ! 0) = 3
   \<and> (0::nat) < length (loopers (startOscillators 44100 initial_engine))
   \<and> within_capacity 44100 (loopers (startOscillators 44100 initial_engine) ! 0)
   \<and> fst (startRecording 0 (startOscillators 44100 initial_engine)) = None
   \<and> (44100::nat) * 30 \<le> length (concat [replicate 1323000 (Sample 1)])
   \<and> \<not> isRecording
        (loopers (run (map (AudioProcess 0) ([replicate 1323000 (Sample 1)] @ [[Sample 2]]))
                    (snd (startRecording 0 (startOscillators 44100 initial_engine)))) ! 0)
   \<and> recordedLength
        (loopers (run (map (AudioProcess 0) ([replicate 1323000 (Sample 1)] @ [[Sample 2]]))
                    (snd (startRecording 0 (startOscillators 44100 initial_engine)))) ! 0)
       = 1323000"
proof -
  let ?e = "startOscillators 44100 initial_engine"
  let ?r = "snd (startRecording 0 ?e)"
  have r: "startRecording 0 ?e = (None, update_looper 0
             (\<lambda>l. l\<lparr>writePosition := 0, recordedLength := 0, isRecording := True\<rparr>) ?e)"
    by (simp add: startRecording_idle nth_started createLooper_fields)
  have h1: "0 < length (loopers ?r)"
    by (simp add: r nth_started)
  have h2: "within_capacity 44100 (loopers ?r ! 0)"
    by (simp add: r nth_loopers_update_looper nth_started within_capacity_def
        createLooper_fields)
  have h3: "isRecording (loopers ?r ! 0)"
    by (simp add: r nth_loopers_update_looper nth_started)
  have w: "writePosition (loopers ?r ! 0) = 0"
    by (simp add: r nth_loopers_update_looper nth_started)
  have h4: "0 < length (loopers ?e)"
    by (simp add: nth_started)
  have h5: "within_capacity 44100 (loopers ?e ! 0)"
    by (simp add: nth_started within_capacity_def createLooper_fields)
  have h6: "fst (startRecording 0 ?e) = None"
    by (simp add: r)
  have h7: "(44100::nat) * 30 \<le> length (concat [replicate 1323000 (Sample 1)])"
    by simp
  note t1 = recording_capacity_bound
    [where sampleRate = 44100 and i = 0 and s = ?r and input = "[Sample 1, Sample 2, Sample 3]",
      THEN conjunct2, THEN conjunct1, rule_format, OF conjI [OF h1 conjI [OF h2 h3]]]
  note t2 = recording_capacity_bound
    [where sampleRate = 44100 and i = 0 and s = ?e and input = "[Sample 2]"
       and blocks = "[replicate 1323000 (Sample 1)]",
      THEN conjunct2, THEN conjunct2, rule_format,
      OF conjI [OF h4 conjI [OF h5 conjI [OF h6 h7]]]]
  have a: "writePosition (loopers (snd (onaudioprocess 0 [Sample 1, Sample 2, Sample 3] ?r)) ! 0)
             = 3"
    using t1 [THEN conjunct2, THEN conjunct2] w by simp
  have b: "\<not> isRecording
        (loopers (run (map (AudioProcess 0) ([replicate 1323000 (Sample 1)] @ [[Sample 2]]))
                    ?r) ! 0)"
    using t2 by (rule conjunct1)
  have c: "recordedLength
        (loopers (run (map (AudioProcess 0) ([replicate 1323000 (Sample 1)] @ [[Sample 2]]))
                    ?r) ! 0) = 1323000"
    using t2 [THEN conjunct2] by simp
  show ?thesis
    using h1 h2 h3 a h4 h5 h6 h7 b c by (intro conjI)
qed


subsection \<open>Record and play\<close>

lemma round_trip_state:
  assumes i: "i < length (loopers s)"
    and len: "length (recordBufferData (loopers s ! i)) = bufferLength (loopers s ! i)"
    and pos: "0 < bufferLength (loopers s ! i)"
    and ok: "fst (startRecording i s) = None"
    and ne: "concat blocks \<noteq> []"
    and rate: "targetPlaybackRate (loopers s ! i) = Some r"
  shows "let before = run (StartRecording i # map (AudioProcess i) blocks
                           @ (if stopFirst then [StopRecording i] else [])) s;
             after = snd (startPlayback i before);
             recording = take (bufferLength (loopers s ! i)) (concat blocks)
         in fst (startPlayback i before) = None
            \<and> isPlaying (loopers after ! i)
            \<and> \<not> isRecording (loopers after ! i)
            \<and> recordedLength (loopers after ! i) = length recording
            \<and> take (recordedLength (loopers after ! i)) (recordBufferData (loopers after ! i))
                  = recording
            \<and> bufferSource (loopers after ! i) = Some (length (voices before))
            \<and> voices after = voices before @ [played_voice recording r]
            \<and> targetPlaybackRate (loopers after ! i) = Some r"
proof -
  let ?cap = "bufferLength (loopers s ! i)"
  let ?xs = "concat blocks"
  let ?s1 = "snd (startRecording i s)"
  let ?s2 = "run (map (AudioProcess i) blocks) ?s1"
  let ?b = "if stopFirst then snd (stopRecording i ?s2) else ?s2"
  have i1: "i < length (loopers ?s1)"
    using i ok by (simp add: startRecording_ok)
  have r1: "recorded [] (loopers ?s1 ! i)"
    using i ok len by (rule recorded_after_startRecording)
  note blocks = recorded_blocks [OF i1 r1, of blocks]
  have i2: "i < length (loopers ?s2)"
    using blocks i1 by simp
  have r2: "recorded ?xs (loopers ?s2 ! i)"
    using blocks by simp
  have cap2: "bufferLength (loopers ?s2 ! i) = ?cap"
    using blocks i ok by (simp add: startRecording_ok)
  have rate2: "targetPlaybackRate (loopers ?s2 ! i) = Some r"
    using blocks i ok rate by (simp add: startRecording_ok)
  have before: "run (StartRecording i # map (AudioProcess i) blocks
                      @ (if stopFirst then [StopRecording i] else [])) s = ?b"
    by (simp add: run_append)
  have ib: "i < length (loopers ?b)"
    using i2 by (simp add: stopRecording_def)
  have same: "recordedLength (loopers ?b ! i) = recordedLength (loopers ?s2 ! i)"
    "recordBufferData (loopers ?b ! i) = recordBufferData (loopers ?s2 ! i)"
    "targetPlaybackRate (loopers ?b ! i) = targetPlaybackRate (loopers ?s2 ! i)"
    using i2 by (simp_all add: stopRecording_def nth_loopers_update_looper)
  have n: "recordedLength (loopers ?s2 ! i) = min (length ?xs) ?cap"
    and d: "take (min (length ?xs) ?cap) (recordBufferData (loopers ?s2 ! i)) = take ?cap ?xs"
    and l2: "length (recordBufferData (loopers ?s2 ! i)) = ?cap"
    using r2 unfolding recorded_def cap2 by metis+
  have lenrec: "length (take ?cap ?xs) = min (length ?xs) ?cap"
    by simp
  have nz: "recordedLength (loopers ?b ! i) \<noteq> 0"
    using ne pos by (simp add: same n)
  have le: "recordedLength (loopers ?b ! i) \<le> length (recordBufferData (loopers ?b ! i))"
    by (simp add: same n l2)
  have rb: "targetPlaybackRate (loopers ?b ! i) = Some r"
    by (simp add: same rate2)
  note play = startPlayback_plays [OF ib nz le rb]
  have tk: "take (recordedLength (loopers ?b ! i)) (recordBufferData (loopers ?b ! i))
              = take ?cap ?xs"
    by (simp only: same n d)
  show ?thesis
    unfolding Let_def before
    using ib by (simp only: play tk) (simp add: nth_loopers_update_looper same n d rate2)
qed





subsection \<open>References to voices\<close>


lemma refs_ok_None: "refs_ok rs n \<Longrightarrow> refs_ok (rs[i := None]) n"
  unfolding refs_ok_def
proof (intro allI impI)
  fix k v
  assume ok: "\<forall>i<length rs. \<forall>v. rs ! i = Some v \<longrightarrow>
                v < n \<and> (\<forall>j<length rs. rs ! j = Some v \<longrightarrow> j = i)"
    and k: "k < length (rs[i := None])" and v: "rs[i := None] ! k = Some v"
  have ki: "k \<noteq> i" using k v by (auto simp: nth_list_update split: if_splits)
  then have rk: "rs ! k = Some v" "k < length rs" using k v by simp_all
  have "j = k" if "j < length (rs[i := None])" "rs[i := None] ! j = Some v" for j
  proof -
    have "j \<noteq> i" using that by (auto simp: nth_list_update split: if_splits)
    then have "rs ! j = Some v" "j < length rs" using that by simp_all
    then show ?thesis using ok rk by blast
  qed
  then show "v < n \<and> (\<forall>j<length (rs[i := None]). rs[i := None] ! j = Some v \<longrightarrow> j = k)"
    using ok rk by blast
qed

lemma refs_ok_fresh: "refs_ok rs n \<Longrightarrow> refs_ok (rs[i := Some n]) (Suc n)"
  unfolding refs_ok_def
proof (intro allI impI)
  fix k v
  assume ok: "\<forall>i<length rs. \<forall>v. rs ! i = Some v \<longrightarrow>
                v < n \<and> (\<forall>j<length rs. rs ! j = Some v \<longrightarrow> j = i)"
    and k: "k < length (rs[i := Some n])" and v: "rs[i := Some n] ! k = Some v"
  have old: "v < n" if "j < length rs" "rs ! j = Some v" for j v
    using ok that by blast
  show "v < Suc n \<and> (\<forall>j<length (rs[i := Some n]). rs[i := Some n] ! j = Some v \<longrightarrow> j = k)"
  proof (cases "k = i")
    case True
    then have vn: "v = n" using k v by simp
    have "j = k" if "j < length (rs[i := Some n])" "rs[i := Some n] ! j = Some v" for j
    proof (rule ccontr)
      assume "j \<noteq> k"
      then have "rs ! j = Some n" "j < length rs" using that True vn by simp_all
      then show False using old by blast
    qed
    then show ?thesis using vn by blast
  next
    case False
    then have rk: "rs ! k = Some v" "k < length rs" using k v by simp_all
    then have vn: "v < n" using old by blast
    have "j = k" if "j < length (rs[i := Some n])" "rs[i := Some n] ! j = Some v" for j
    proof -
      have "j \<noteq> i" using that vn by (auto simp: nth_list_update split: if_splits)
      then have "rs ! j = Some v" "j < length rs" using that by simp_all
      then show ?thesis using ok rk by blast
    qed
    then show ?thesis using vn by simp
  qed
qed

lemma voice_refs_okD:
  assumes "voice_refs_ok s" and "i < length (loopers s)"
    and "bufferSource (loopers s ! i) = Some v"
  shows "v < length (voices s)"
    and "j < length (loopers s) \<Longrightarrow> bufferSource (loopers s ! j) = Some v \<Longrightarrow> j = i"
  using assms unfolding voice_refs_ok_def refs_ok_def by (simp, metis length_map nth_map)+

lemma refs_step_ok: "refs_step s s' \<Longrightarrow> voice_refs_ok s \<Longrightarrow> voice_refs_ok s'"
  unfolding refs_step_def voice_refs_ok_def
  by (metis refs_ok_None refs_ok_fresh)

lemma map_bufferSource_update:
  "bufferSource (f (loopers s ! i)) = b \<Longrightarrow>
     map bufferSource (loopers (update_looper i f s)) = (map bufferSource (loopers s))[i := b]"
  by (simp add: update_looper_def map_update)

lemma map_bufferSource_same:
  "bufferSource (f (loopers s ! i)) = bufferSource (loopers s ! i) \<Longrightarrow>
     map bufferSource (loopers (update_looper i f s)) = map bufferSource (loopers s)"
  by (simp add: update_looper_def map_update) (metis list_update_id map_update)

lemma refs_stopRecording: "voice_refs_ok s \<Longrightarrow> voice_refs_ok (snd (stopRecording i s))"
  by (rule refs_step_ok [of s])
     (simp_all add: refs_step_def stopRecording_def map_bufferSource_same)

lemma refs_stopPlayback: "voice_refs_ok s \<Longrightarrow> voice_refs_ok (snd (stopPlayback i s))"
proof (rule refs_step_ok [of s])
  show "refs_step s (snd (stopPlayback i s))"
    unfolding refs_step_def
    by (cases "bufferSource (loopers s ! i)")
       (auto simp: stopPlayback_def map_bufferSource_same map_bufferSource_update)
qed

lemma refs_update_fields:
  assumes "voice_refs_ok s" and "\<And>l. bufferSource (f l) = bufferSource l"
  shows "voice_refs_ok (update_looper i f s)"
  by (rule refs_step_ok [OF _ assms(1)]) (simp add: refs_step_def map_bufferSource_same assms(2))

lemma refs_startRecording: "voice_refs_ok s \<Longrightarrow> voice_refs_ok (snd (startRecording i s))"
  unfolding startRecording_def
  by (auto simp del: sequence.simps simp: refs_stopPlayback refs_update_fields
      intro!: sequence_keeps [where Q = voice_refs_ok])

lemma refs_clearLoop: "voice_refs_ok s \<Longrightarrow> voice_refs_ok (snd (clearLoop i s))"
  unfolding clearLoop_def
  by (auto simp del: sequence.simps simp: refs_stopPlayback refs_stopRecording
      refs_update_fields intro!: sequence_keeps [where Q = voice_refs_ok])

lemma refs_startPlayback: "voice_refs_ok s \<Longrightarrow> voice_refs_ok (snd (startPlayback i s))"
proof (rule refs_step_ok [of s])
  show "refs_step s (snd (startPlayback i s))"
    unfolding refs_step_def
    by (cases "targetPlaybackRate (loopers s ! i)")
       (auto simp: startPlayback_def stopRecording_def Let_def update_looper_def map_update
          list_update_same_conv)
qed

lemma refs_onaudioprocess:
  "voice_refs_ok s \<Longrightarrow> voice_refs_ok (snd (onaudioprocess i input s))"
  by (rule refs_step_ok [of s])
     (simp_all add: refs_step_def onaudioprocess_def stopRecording_def Let_def
        map_bufferSource_same recordLoop_other_fields)

lemma refs_updateLooper: "voice_refs_ok s \<Longrightarrow> voice_refs_ok (snd (updateLooper i s))"
  by (rule refs_step_ok [of s])
     (simp_all add: refs_step_def updateLooper_def Let_def map_bufferSource_same
        split: option.splits)

lemma refs_setTargetPlaybackRate:
  "voice_refs_ok s \<Longrightarrow> voice_refs_ok (snd (setTargetPlaybackRate i r s))"
  by (simp add: setTargetPlaybackRate_def refs_update_fields)

lemma refs_setGlitchTarget:
  "voice_refs_ok s \<Longrightarrow> voice_refs_ok (snd (setGlitchTarget i x s))"
  by (simp add: voice_refs_ok_def setGlitchTarget_def)

lemma refs_exec:
  assumes "voice_refs_ok s"
  shows "voice_refs_ok (exec c s)"
proof (cases c)
  case UpdateParameters
  have "voice_refs_ok (snd (updateLooperParameters s))"
    unfolding updateLooperParameters_def
    by (rule sequence_keeps [where Q = voice_refs_ok]) (auto simp: refs_updateLooper assms)
  with UpdateParameters show ?thesis by simp
next
  case (DeviceOrientation g b a)
  have "voice_refs_ok (s\<lparr>xValue := x, yValue := y, rotation := z\<rparr>)" for x y z
    using assms by (simp add: voice_refs_ok_def)
  then have "voice_refs_ok (snd (onDeviceOrientation g b a s))"
    unfolding onDeviceOrientation_def Let_def
    by (intro sequence_keeps [where Q = voice_refs_ok])
       (auto simp: refs_setTargetPlaybackRate refs_setGlitchTarget)
  with DeviceOrientation show ?thesis by simp
next
  case (ReverbInput p)
  then show ?thesis
    using assms by (simp add: reverbSliderInput_def Let_def voice_refs_ok_def)
qed (simp_all add: assms refs_startRecording refs_stopRecording refs_startPlayback
       refs_stopPlayback refs_clearLoop refs_onaudioprocess)

lemma refs_run: "voice_refs_ok s \<Longrightarrow> voice_refs_ok (run cs s)"
  by (induction cs arbitrary: s) (simp_all add: refs_exec)

lemma refs_started: "voice_refs_ok (startOscillators sr initial_engine)"
  by (simp add: voice_refs_ok_def refs_ok_def startOscillators_initial nth_Cons'
      createLooper_fields)





text \<open>The started engine after one recorded sample has been put to play on looper 0.\<close>

lemma playing_example:
  fixes e p
  defines "e \<equiv> startOscillators 44100 initial_engine"
  defines "p \<equiv> run [StartRecording 0, AudioProcess 0 [Sample 1], StartPlayback 0] e"
  shows "0 < length (loopers p)"
    and "isPlaying (loopers p ! 0)"
    and "recordedLength (loopers p ! 0) = 1"
    and "recordedLength (loopers p ! 0) \<le> length (recordBufferData (loopers p ! 0))"
    and "targetPlaybackRate (loopers p ! 0) = Some 1"
    and "bufferSource (loopers p ! 0) = Some 0"
    and "voice_refs_ok p"
    and "voices p = [played_voice [Sample 1] 1]"
proof -
  have h: "0 < length (loopers e)"
    "length (recordBufferData (loopers e ! 0)) = bufferLength (loopers e ! 0)"
    "0 < bufferLength (loopers e ! 0)"
    "fst (startRecording 0 e) = None"
    "concat [[Sample 1]] \<noteq> []"
    "targetPlaybackRate (loopers e ! 0) = Some 1"
    by (simp_all add: e_def nth_started createLooper_fields startRecording_idle)
  have cap: "bufferLength (loopers e ! 0) = 1323000"
    by (simp add: e_def nth_started createLooper_fields)
  have p: "p = snd (startPlayback 0 (snd (onaudioprocess 0 [Sample 1]
                 (snd (startRecording 0 e)))))"
    by (simp add: p_def)
  have vb: "voices (snd (onaudioprocess 0 [Sample 1] (snd (startRecording 0 e)))) = []"
    by (simp add: onaudioprocess_frame startRecording_idle e_def nth_started
        createLooper_fields)
  note t = round_trip_state [OF h, of False, unfolded Let_def, simplified, folded p]
  show l: "0 < length (loopers p)"
    by (simp add: p_def e_def length_loopers_run nth_started del: run.simps)
  show "isPlaying (loopers p ! 0)" using t by simp
  show "recordedLength (loopers p ! 0) = 1" using t by (simp add: cap)
  show "bufferSource (loopers p ! 0) = Some 0" using t by (simp add: vb)
  show "voices p = [played_voice [Sample 1] 1]" using t by (simp add: vb cap)
  show "targetPlaybackRate (loopers p ! 0) = Some 1" using t by simp
  show "voice_refs_ok p"
    unfolding p_def e_def by (rule refs_run [OF refs_started])
  have "list_all (within_capacity 44100) (loopers p)"
    unfolding p_def e_def by (rule cap_run [OF cap_started])
  then have "within_capacity 44100 (loopers p ! 0)"
    using l by (rule list_all_nth)
  then show "recordedLength (loopers p ! 0) \<le> length (recordBufferData (loopers p ! 0))"
    by (simp add: within_capacity_def)
qed




subsection \<open>The update loop\<close>


lemma applied_fields:
  "bufferSource (applied sm l) = bufferSource l"
  "isPlaying (applied sm l) = isPlaying l"
  "isRecording (applied sm l) = isRecording l"
  "targetPlaybackRate (applied sm l) = targetPlaybackRate l"
  "glitchIntensity (applied sm l) = fst (step (glitchIntensity_smoother sm))"
  "stutterRate (applied sm l) = fst (step (stutterRate_smoother sm))"
  "playbackRate (applied sm l) = or_1 (targetPlaybackRate l)"
  by (simp_all add: applied_def)

lemma updateLooper_effect:
  assumes "i < length (parameterSmoothers s)"
  shows "fst (updateLooper i s) = None"
    and "parameterSmoothers (snd (updateLooper i s))
           = (parameterSmoothers s)[i := stepped (parameterSmoothers s ! i)]"
    and "loopers (snd (updateLooper i s))
           = (loopers s)[i := applied (parameterSmoothers s ! i) (loopers s ! i)]"
    and "voices (snd (updateLooper i s))
           = (case bufferSource (loopers s ! i) of
                None \<Rightarrow> voices s
              | Some v \<Rightarrow>
                  if isPlaying (loopers s ! i)
                  then (voices s)[v := (voices s ! v)
                         \<lparr>playbackRate_value := or_1 (targetPlaybackRate (loopers s ! i))\<rparr>]
                  else voices s)"
  using assms
  by (simp_all add: updateLooper_def Let_def update_looper_def update_voice_def stepped_def
      applied_def split: option.splits)

lemma updateLooper_voice:
  assumes i: "i < length (parameterSmoothers s)" "i < length (loopers s)"
    and refs: "voice_refs_ok s"
    and j: "j < length (loopers s)" "bufferSource (loopers s ! j) = Some v"
  shows "voices (snd (updateLooper i s)) ! v =
           (if j = i \<and> isPlaying (loopers s ! i)
            then (voices s ! v)\<lparr>playbackRate_value := or_1 (targetPlaybackRate (loopers s ! i))\<rparr>
            else voices s ! v)"
proof -
  have v: "v < length (voices s)"
    using voice_refs_okD(1) [OF refs j] .
  show ?thesis
  proof (cases "bufferSource (loopers s ! i)")
    case None
    then show ?thesis
      using j by (auto simp: updateLooper_effect(4) [OF i(1)])
  next
    case (Some w)
    have "w = v \<longleftrightarrow> j = i"
      using voice_refs_okD(2) [OF refs j, of i] i(2) Some j(2) by auto
    then show ?thesis
      using Some v by (auto simp: updateLooper_effect(4) [OF i(1)])
  qed
qed

lemma update_sequence:
  assumes "distinct ks"
    and "\<forall>k \<in> set ks. k < length (loopers s) \<and> k < length (parameterSmoothers s)"
    and "voice_refs_ok s"
  shows "fst (sequence (map updateLooper ks) s) = None
       \<and> length (loopers (snd (sequence (map updateLooper ks) s))) = length (loopers s)
       \<and> length (parameterSmoothers (snd (sequence (map updateLooper ks) s)))
           = length (parameterSmoothers s)
       \<and> length (voices (snd (sequence (map updateLooper ks) s))) = length (voices s)
       \<and> (\<forall>j < length (loopers s).
             loopers (snd (sequence (map updateLooper ks) s)) ! j
               = (if j \<in> set ks then applied (parameterSmoothers s ! j) (loopers s ! j)
                  else loopers s ! j))
       \<and> (\<forall>j < length (parameterSmoothers s).
             parameterSmoothers (snd (sequence (map updateLooper ks) s)) ! j
               = (if j \<in> set ks then stepped (parameterSmoothers s ! j)
                  else parameterSmoothers s ! j))
       \<and> (\<forall>j < length (loopers s). \<forall>v. bufferSource (loopers s ! j) = Some v \<longrightarrow>
             voices (snd (sequence (map updateLooper ks) s)) ! v
               = (if j \<in> set ks \<and> isPlaying (loopers s ! j)
                  then (voices s ! v)
                         \<lparr>playbackRate_value := or_1 (targetPlaybackRate (loopers s ! j))\<rparr>
                  else voices s ! v))"
  using assms
proof (induction ks arbitrary: s)
  case Nil
  then show ?case by simp
next
  case (Cons i ks)
  let ?s1 = "snd (updateLooper i s)"
  let ?s' = "snd (sequence (map updateLooper ks) ?s1)"
  have i: "i < length (parameterSmoothers s)" "i < length (loopers s)"
    using Cons.prems(2) by simp_all
  have notin: "i \<notin> set ks" and dist: "distinct ks"
    using Cons.prems(1) by simp_all
  note eff = updateLooper_effect [OF i(1)]
  have len1: "length (loopers ?s1) = length (loopers s)"
    "length (parameterSmoothers ?s1) = length (parameterSmoothers s)"
    "length (voices ?s1) = length (voices s)"
    by (simp_all add: eff split: option.splits)
  have l1: "loopers ?s1 ! j = (if j = i then applied (parameterSmoothers s ! i) (loopers s ! i)
                               else loopers s ! j)" if "j < length (loopers s)" for j
    using that by (simp add: eff nth_list_update)
  have p1: "parameterSmoothers ?s1 ! j = (if j = i then stepped (parameterSmoothers s ! i)
                               else parameterSmoothers s ! j)"
    if "j < length (parameterSmoothers s)" for j
    using that by (simp add: eff nth_list_update)
  have same1: "bufferSource (loopers ?s1 ! j) = bufferSource (loopers s ! j)"
    "isPlaying (loopers ?s1 ! j) = isPlaying (loopers s ! j)"
    "targetPlaybackRate (loopers ?s1 ! j) = targetPlaybackRate (loopers s ! j)"
    if "j < length (loopers s)" for j
    using that by (simp_all add: l1 applied_fields)
  have refs1: "voice_refs_ok ?s1"
    using Cons.prems(3) by (rule refs_updateLooper)
  have bounds1: "\<forall>k \<in> set ks. k < length (loopers ?s1) \<and> k < length (parameterSmoothers ?s1)"
    using Cons.prems(2) by (simp add: len1)
  note ih = Cons.IH [OF dist bounds1 refs1]
  have seq: "sequence (map updateLooper (i # ks)) s = sequence (map updateLooper ks) ?s1"
    using eff(1) by (cases "updateLooper i s") simp
  have A: "fst (sequence (map updateLooper ks) ?s1) = None"
    and B: "length (loopers ?s') = length (loopers s)"
      "length (parameterSmoothers ?s') = length (parameterSmoothers s)"
      "length (voices ?s') = length (voices s)"
    using ih by (simp_all add: len1)
  have C: "loopers ?s' ! j
             = (if j \<in> set (i # ks) then applied (parameterSmoothers s ! j) (loopers s ! j)
                else loopers s ! j)" if "j < length (loopers s)" for j
  proof -
    have "loopers ?s' ! j
            = (if j \<in> set ks then applied (parameterSmoothers ?s1 ! j) (loopers ?s1 ! j)
               else loopers ?s1 ! j)"
      using ih that by (simp add: len1)
    moreover have "parameterSmoothers ?s1 ! j = parameterSmoothers s ! j"
      "loopers ?s1 ! j = loopers s ! j" if "j \<in> set ks"
      using that notin Cons.prems(2) by (auto simp: l1 p1)
    ultimately show ?thesis
      using that by (auto simp: l1)
  qed
  have D: "parameterSmoothers ?s' ! j
             = (if j \<in> set (i # ks) then stepped (parameterSmoothers s ! j)
                else parameterSmoothers s ! j)" if "j < length (parameterSmoothers s)" for j
  proof -
    have "parameterSmoothers ?s' ! j
            = (if j \<in> set ks then stepped (parameterSmoothers ?s1 ! j)
               else parameterSmoothers ?s1 ! j)"
      using ih that by (simp add: len1)
    moreover have "parameterSmoothers ?s1 ! j = parameterSmoothers s ! j" if "j \<in> set ks"
      using that notin Cons.prems(2) by (auto simp: p1)
    ultimately show ?thesis
      using that by (auto simp: p1)
  qed
  have E: "voices ?s' ! v
             = (if j \<in> set (i # ks) \<and> isPlaying (loopers s ! j)
                then (voices s ! v)
                       \<lparr>playbackRate_value := or_1 (targetPlaybackRate (loopers s ! j))\<rparr>
                else voices s ! v)"
    if "j < length (loopers s)" "bufferSource (loopers s ! j) = Some v" for j v
  proof -
    have "voices ?s' ! v
            = (if j \<in> set ks \<and> isPlaying (loopers ?s1 ! j)
               then (voices ?s1 ! v)
                      \<lparr>playbackRate_value := or_1 (targetPlaybackRate (loopers ?s1 ! j))\<rparr>
               else voices ?s1 ! v)"
      using ih that by (simp add: len1 same1)
    moreover have "voices ?s1 ! v =
           (if j = i \<and> isPlaying (loopers s ! i)
            then (voices s ! v)\<lparr>playbackRate_value := or_1 (targetPlaybackRate (loopers s ! i))\<rparr>
            else voices s ! v)"
      using i Cons.prems(3) that by (rule updateLooper_voice)
    ultimately show ?thesis
      using that notin by (auto simp: same1)
  qed
  show ?case
    unfolding seq using A B C D E by blast
qed


lemma length_smoothers_exec:
  "length (parameterSmoothers (exec c s)) = length (parameterSmoothers s)"
proof -
  have seq: "length (parameterSmoothers (snd (sequence fs s'))) = length (parameterSmoothers s')"
    if "\<And>f s. f \<in> set fs \<Longrightarrow>
          length (parameterSmoothers (snd (f s))) = length (parameterSmoothers s)"
    for fs s'
    by (rule sequence_keeps
          [where Q = "\<lambda>s. length (parameterSmoothers s) = length (parameterSmoothers s')"])
       (simp_all add: that)
  have stopP: "length (parameterSmoothers (snd (stopPlayback i s)))
                 = length (parameterSmoothers s)" for i s
    by (simp add: stopPlayback_def split: option.splits)
  have stopR: "length (parameterSmoothers (snd (stopRecording i s)))
                 = length (parameterSmoothers s)" for i s
    by (simp add: stopRecording_def)
  show ?thesis
  proof (cases c)
    case (StartRecording i)
    then show ?thesis
      by (auto simp: startRecording_def stopP simp del: sequence.simps intro!: seq)
  next
    case (StartPlayback i)
    then show ?thesis
      by (simp add: startPlayback_def stopRecording_def Let_def update_voice_def
          update_looper_def split: option.splits)
  next
    case (ClearLoop i)
    then show ?thesis
      by (auto simp: clearLoop_def stopP stopR simp del: sequence.simps intro!: seq)
  next
    case (AudioProcess i input)
    then show ?thesis
      by (simp add: onaudioprocess_def stopRecording_def Let_def)
  next
    case UpdateParameters
    have "length (parameterSmoothers (snd (updateLooper i s)))
            = length (parameterSmoothers s)" for i s
      by (simp add: updateLooper_def Let_def update_voice_def update_looper_def
          split: option.splits)
    with UpdateParameters show ?thesis
      by (auto simp: updateLooperParameters_def simp del: sequence.simps intro!: seq)
  next
    case (DeviceOrientation g b a)
    have "length (parameterSmoothers (snd (onDeviceOrientation g b a s))) =
          length (parameterSmoothers (s\<lparr>xValue := \<lfloor>g + 1 / 2\<rfloor>, yValue := \<lfloor>b + 1 / 2\<rfloor>,
                             rotation := \<lfloor>a + 1 / 2\<rfloor>\<rparr>))"
      unfolding onDeviceOrientation_def Let_def
      by (rule seq) (auto simp: setGlitchTarget_def setTargetPlaybackRate_def)
    with DeviceOrientation show ?thesis by simp
  qed (simp_all add: stopP stopR reverbSliderInput_def Let_def)
qed

lemma length_smoothers_run:
  "length (parameterSmoothers (run cs s)) = length (parameterSmoothers s)"
  by (induction cs arbitrary: s) (simp_all add: length_smoothers_exec)

lemma frame_playbackRate:
  assumes "length (loopers s) \<le> length (parameterSmoothers s)"
    and "voice_refs_ok s" and "i < length (loopers s)"
  shows "playbackRate (loopers (snd (updateLooperParameters s)) ! i)
           = or_1 (targetPlaybackRate (loopers s ! i))"
proof -
  have d: "distinct [0..<length (loopers s)]" by simp
  have b: "\<forall>k \<in> set [0..<length (loopers s)].
             k < length (loopers s) \<and> k < length (parameterSmoothers s)"
    using assms(1) by simp
  note u = update_sequence [OF d b assms(2), folded updateLooperParameters_def]
  show ?thesis
    using u assms(3) by (simp add: applied_fields)
qed

text \<open>
  C8, as the code has it. In an engine with a pair of smoothers for every looper and sound
  voice references, a frame of the update loop returns normally and, for every looper:
  both smoothers are advanced by one step; \<open>glitchIntensity\<close> and \<open>stutterRate\<close> are the
  values those steps return; \<open>playbackRate\<close> is \<open>targetPlaybackRate || 1\<close>, that is the
  target itself when it is a number other than 0, and 1 when it is 0 or \<open>undefined\<close>, with
  no smoothing. No voice is created, and the voice that the looper refers to has that rate
  written into it when the looper is playing, with all its other fields (buffer, started,
  stopped) as before, and is untouched when the looper is not playing.
\<close>

theorem update_frame_applies_parameters:
  assumes "length (loopers s) \<le> length (parameterSmoothers s)"
    and "voice_refs_ok s"
    and "i < length (loopers s)"
  shows "let s' = snd (updateLooperParameters s);
             l = loopers s ! i;
             sm = parameterSmoothers s ! i
         in fst (updateLooperParameters s) = None
            \<and> parameterSmoothers s' ! i =
                \<lparr>glitchIntensity_smoother = snd (step (glitchIntensity_smoother sm)),
                 stutterRate_smoother = snd (step (stutterRate_smoother sm))\<rparr>
            \<and> loopers s' ! i =
                l\<lparr>glitchIntensity := fst (step (glitchIntensity_smoother sm)),
                  playbackRate := or_1 (targetPlaybackRate l),
                  stutterRate := fst (step (stutterRate_smoother sm))\<rparr>
            \<and> (\<forall>r. targetPlaybackRate l = Some r \<and> r \<noteq> 0 \<longrightarrow>
                   playbackRate (loopers s' ! i) = r)
            \<and> (targetPlaybackRate l = None \<or> targetPlaybackRate l = Some 0 \<longrightarrow>
                   playbackRate (loopers s' ! i) = 1)
            \<and> length (voices s') = length (voices s)
            \<and> (\<forall>v. bufferSource l = Some v \<longrightarrow>
                   voices s' ! v =
                     (if isPlaying l
                      then (voices s ! v)\<lparr>playbackRate_value := playbackRate (loopers s' ! i)\<rparr>
                      else voices s ! v))"
proof -
  have d: "distinct [0..<length (loopers s)]" by simp
  have b: "\<forall>k \<in> set [0..<length (loopers s)].
             k < length (loopers s) \<and> k < length (parameterSmoothers s)"
    using assms(1) by simp
  note u = update_sequence [OF d b assms(2), folded updateLooperParameters_def]
  let ?s' = "snd (updateLooperParameters s)"
  have i': "i < length (parameterSmoothers s)" using assms(1,3) by simp
  have l: "loopers ?s' ! i = applied (parameterSmoothers s ! i) (loopers s ! i)"
    using u assms(3) by simp
  have p: "parameterSmoothers ?s' ! i = stepped (parameterSmoothers s ! i)"
    using u i' assms(3) by simp
  have v: "voices ?s' ! v =
             (if isPlaying (loopers s ! i)
              then (voices s ! v)
                     \<lparr>playbackRate_value := or_1 (targetPlaybackRate (loopers s ! i))\<rparr>
              else voices s ! v)" if "bufferSource (loopers s ! i) = Some v" for v
    using u assms(3) that by simp
  show ?thesis
    unfolding Let_def
    using u v by (auto simp: l p applied_def stepped_def or_1_def)
qed

subsection \<open>Orientation fan-out\<close>


lemma onDeviceOrientation_effect:
  assumes "4 \<le> length (loopers s)" and "4 \<le> length (parameterSmoothers s)"
  shows "fst (onDeviceOrientation g b a s) = None"
    and "voices (snd (onDeviceOrientation g b a s)) = voices s"
    and "loopers (snd (onDeviceOrientation g b a s)) =
           (loopers s)
             [0 := (loopers s ! 0)\<lparr>targetPlaybackRate := mapToSpeed ((b + 180) / 360)\<rparr>,
              1 := (loopers s ! 1)\<lparr>targetPlaybackRate := mapToSpeed (a / 360)\<rparr>,
              2 := (loopers s ! 2)\<lparr>targetPlaybackRate := mapToSpeed ((g + 90) / 180)\<rparr>,
              3 := (loopers s ! 3)\<lparr>targetPlaybackRate := mapToSpeed (a / 360)\<rparr>]"
    and "parameterSmoothers (snd (onDeviceOrientation g b a s)) =
           (parameterSmoothers s)
             [0 := (parameterSmoothers s ! 0)\<lparr>glitchIntensity_smoother :=
                     setTarget ((g + 90) / 180)
                       (glitchIntensity_smoother (parameterSmoothers s ! 0))\<rparr>,
              1 := (parameterSmoothers s ! 1)\<lparr>glitchIntensity_smoother :=
                     setTarget ((b + 180) / 360)
                       (glitchIntensity_smoother (parameterSmoothers s ! 1))\<rparr>,
              2 := (parameterSmoothers s ! 2)\<lparr>glitchIntensity_smoother :=
                     setTarget (a / 360)
                       (glitchIntensity_smoother (parameterSmoothers s ! 2))\<rparr>,
              3 := (parameterSmoothers s ! 3)\<lparr>glitchIntensity_smoother :=
                     setTarget (((g + 90) / 180 + (b + 180) / 360) / 2)
                       (glitchIntensity_smoother (parameterSmoothers s ! 3))\<rparr>]"
proof -
  have n: "loopers s \<noteq> []" "Suc 0 < length (loopers s)" "2 < length (loopers s)"
    "3 < length (loopers s)" "parameterSmoothers s \<noteq> []"
    "Suc 0 < length (parameterSmoothers s)" "2 < length (parameterSmoothers s)"
    "3 < length (parameterSmoothers s)"
    using assms by auto
  show "fst (onDeviceOrientation g b a s) = None"
    using n by (simp add: onDeviceOrientation_def Let_def setGlitchTarget_def
        setTargetPlaybackRate_def update_looper_def)
  show "voices (snd (onDeviceOrientation g b a s)) = voices s"
    using n by (simp add: onDeviceOrientation_def Let_def setGlitchTarget_def
        setTargetPlaybackRate_def update_looper_def)
  show "loopers (snd (onDeviceOrientation g b a s)) =
           (loopers s)
             [0 := (loopers s ! 0)\<lparr>targetPlaybackRate := mapToSpeed ((b + 180) / 360)\<rparr>,
              1 := (loopers s ! 1)\<lparr>targetPlaybackRate := mapToSpeed (a / 360)\<rparr>,
              2 := (loopers s ! 2)\<lparr>targetPlaybackRate := mapToSpeed ((g + 90) / 180)\<rparr>,
              3 := (loopers s ! 3)\<lparr>targetPlaybackRate := mapToSpeed (a / 360)\<rparr>]"
    using n by (simp add: onDeviceOrientation_def Let_def setGlitchTarget_def
        setTargetPlaybackRate_def update_looper_def)
  show "parameterSmoothers (snd (onDeviceOrientation g b a s)) =
           (parameterSmoothers s)
             [0 := (parameterSmoothers s ! 0)\<lparr>glitchIntensity_smoother :=
                     setTarget ((g + 90) / 180)
                       (glitchIntensity_smoother (parameterSmoothers s ! 0))\<rparr>,
              1 := (parameterSmoothers s ! 1)\<lparr>glitchIntensity_smoother :=
                     setTarget ((b + 180) / 360)
                       (glitchIntensity_smoother (parameterSmoothers s ! 1))\<rparr>,
              2 := (parameterSmoothers s ! 2)\<lparr>glitchIntensity_smoother :=
                     setTarget (a / 360)
                       (glitchIntensity_smoother (parameterSmoothers s ! 2))\<rparr>,
              3 := (parameterSmoothers s ! 3)\<lparr>glitchIntensity_smoother :=
                     setTarget (((g + 90) / 180 + (b + 180) / 360) / 2)
                       (glitchIntensity_smoother (parameterSmoothers s ! 3))\<rparr>]"
    using n by (simp add: onDeviceOrientation_def Let_def setGlitchTarget_def
        setTargetPlaybackRate_def update_looper_def)
qed


text \<open>
  C7. In a started engine (four loopers, four pairs of smoothers) the listener returns
  normally, and with \<open>gamma = (event.gamma + 90) / 180\<close>,
  \<open>beta = (event.beta + 180) / 360\<close> and \<open>alpha = event.alpha / 360\<close> it changes exactly
  this: looper 0 gets the glitch target \<open>gamma\<close> and the speed target \<open>mapToSpeed(beta)\<close>,
  looper 1 \<open>beta\<close> and \<open>mapToSpeed(alpha)\<close>, looper 2 \<open>alpha\<close> and \<open>mapToSpeed(gamma)\<close>,
  looper 3 \<open>(gamma + beta) / 2\<close> and \<open>mapToSpeed(alpha)\<close>. The sample \<open>gamma = 0\<close>,
  \<open>beta = -180\<close>, \<open>alpha = 0\<close> of the specification, normalized to 0.5, 0 and 0, is
  evaluated on the started engine after the theorem.
\<close>

theorem orientation_fan_out:
  assumes "4 \<le> length (loopers s)" and "4 \<le> length (parameterSmoothers s)"
  shows "let gamma = (event_gamma + 90) / 180;
             beta = (event_beta + 180) / 360;
             alpha = event_alpha / 360;
             s' = snd (onDeviceOrientation event_gamma event_beta event_alpha s)
         in fst (onDeviceOrientation event_gamma event_beta event_alpha s) = None
            \<and> parameterSmoothers s' ! 0 = (parameterSmoothers s ! 0)
                  \<lparr>glitchIntensity_smoother :=
                     (glitchIntensity_smoother (parameterSmoothers s ! 0))
                       \<lparr>targetValue := gamma\<rparr>\<rparr>
            \<and> loopers s' ! 0 = (loopers s ! 0)\<lparr>targetPlaybackRate := mapToSpeed beta\<rparr>
            \<and> parameterSmoothers s' ! 1 = (parameterSmoothers s ! 1)
                  \<lparr>glitchIntensity_smoother :=
                     (glitchIntensity_smoother (parameterSmoothers s ! 1))
                       \<lparr>targetValue := beta\<rparr>\<rparr>
            \<and> loopers s' ! 1 = (loopers s ! 1)\<lparr>targetPlaybackRate := mapToSpeed alpha\<rparr>
            \<and> parameterSmoothers s' ! 2 = (parameterSmoothers s ! 2)
                  \<lparr>glitchIntensity_smoother :=
                     (glitchIntensity_smoother (parameterSmoothers s ! 2))
                       \<lparr>targetValue := alpha\<rparr>\<rparr>
            \<and> loopers s' ! 2 = (loopers s ! 2)\<lparr>targetPlaybackRate := mapToSpeed gamma\<rparr>
            \<and> parameterSmoothers s' ! 3 = (parameterSmoothers s ! 3)
                  \<lparr>glitchIntensity_smoother :=
                     (glitchIntensity_smoother (parameterSmoothers s ! 3))
                       \<lparr>targetValue := (gamma + beta) / 2\<rparr>\<rparr>
            \<and> loopers s' ! 3 = (loopers s ! 3)\<lparr>targetPlaybackRate := mapToSpeed alpha\<rparr>
            \<and> voices s' = voices s"
proof -
  have n: "0 < length (loopers s)" "Suc 0 < length (loopers s)" "2 < length (loopers s)"
    "3 < length (loopers s)" "0 < length (parameterSmoothers s)"
    "Suc 0 < length (parameterSmoothers s)" "2 < length (parameterSmoothers s)"
    "3 < length (parameterSmoothers s)"
    using assms by auto
  note e = onDeviceOrientation_effect [OF assms, of event_gamma event_beta event_alpha]
  show ?thesis
    unfolding Let_def e using n by (simp add: setTarget_def)
qed

theorem orientation_fan_out_witness:
  "(4::nat) \<le> length (loopers (startOscillators 44100 initial_engine))
   \<and> (4::nat) \<le> length (parameterSmoothers (startOscillators 44100 initial_engine))
   \<and> map (\<lambda>sm. targetValue (glitchIntensity_smoother sm))
         (parameterSmoothers
            (snd (onDeviceOrientation 0 (- 180) 0 (startOscillators 44100 initial_engine))))
       = [1 / 2, 0, 0, 1 / 4]
   \<and> map targetPlaybackRate
         (loopers (snd (onDeviceOrientation 0 (- 180) 0 (startOscillators 44100 initial_engine))))
       = [Some (- 4), Some (- 4), Some (1 / 4), Some (- 4)]"
proof -
  let ?e = "startOscillators 44100 initial_engine"
  let ?r = "snd (onDeviceOrientation 0 (- 180) 0 ?e)"
  have h: "4 \<le> length (loopers ?e)" "4 \<le> length (parameterSmoothers ?e)"
    by (simp_all add: nth_started)
  note t = orientation_fan_out [OF h, of 0 "- 180" 0, unfolded Let_def]
  have len: "length (loopers ?r) = 4" "length (parameterSmoothers ?r) = 4"
    using length_loopers_exec [of "DeviceOrientation 0 (- 180) 0" ?e]
      length_smoothers_exec [of "DeviceOrientation 0 (- 180) 0" ?e]
    by (simp_all add: nth_started)
  have sp: "mapToSpeed 0 = Some (- 4)" "mapToSpeed (1 / 2) = Some (1 / 4)"
    by (simp_all add: mapToSpeed_index js_index_def PLAYBACK_SPEEDS_def)
  have four: "xs = [xs ! 0, xs ! 1, xs ! 2, xs ! 3]" if "length xs = 4" for xs :: "'a list"
    using that by (auto simp: list_eq_iff_nth_eq less_Suc_eq numeral_eq_Suc)
  have a: "map (\<lambda>sm. targetValue (glitchIntensity_smoother sm)) (parameterSmoothers ?r)
             = [1 / 2, 0, 0, 1 / 4]"
    by (subst four [OF len(2)]) (use t in simp)
  have b: "map targetPlaybackRate (loopers ?r)
             = [Some (- 4), Some (- 4), Some (1 / 4), Some (- 4)]"
    by (subst four [OF len(1)]) (use t sp in simp)
  show ?thesis
    using h a b by (intro conjI)
qed

subsection \<open>Reverb mix\<close>

text \<open>
  C9. Once the wet and dry gain nodes exist, a slider input of \<open>percent\<close> sets the wet
  gain to \<open>percent / 100\<close> and the dry gain to \<open>1 - percent / 100\<close>, which add up to 1,
  and changes nothing else; before the nodes exist the input changes nothing. The example
  \<open>percent = 30\<close> follows the theorem: wet 0.3 and dry 0.7 on the started engine, no
  change before the start.
\<close>

theorem reverb_mix:
  "(reverbWet s \<noteq> None \<and> reverbDry s \<noteq> None \<longrightarrow>
      reverbSliderInput percent s
        = s\<lparr>reverbWet := Some (real_of_int percent / 100),
            reverbDry := Some (1 - real_of_int percent / 100)\<rparr>
      \<and> (\<exists>wet dry. reverbWet (reverbSliderInput percent s) = Some wet
             \<and> reverbDry (reverbSliderInput percent s) = Some dry
             \<and> wet + dry = 1))
   \<and> (reverbWet s = None \<or> reverbDry s = None \<longrightarrow> reverbSliderInput percent s = s)"
proof (intro conjI impI)
  assume built: "reverbWet s \<noteq> None \<and> reverbDry s \<noteq> None"
  then show eq: "reverbSliderInput percent s
          = s\<lparr>reverbWet := Some (real_of_int percent / 100),
              reverbDry := Some (1 - real_of_int percent / 100)\<rparr>"
    by (simp add: reverbSliderInput_def Let_def)
  show "\<exists>wet dry. reverbWet (reverbSliderInput percent s) = Some wet
          \<and> reverbDry (reverbSliderInput percent s) = Some dry \<and> wet + dry = 1"
    unfolding eq
    by (intro exI [of _ "real_of_int percent / 100"]
          exI [of _ "1 - real_of_int percent / 100"]) simp
next
  assume "reverbWet s = None \<or> reverbDry s = None"
  then show "reverbSliderInput percent s = s"
    by (auto simp: reverbSliderInput_def)
qed

theorem reverb_mix_witness:
  "reverbWet (startOscillators 44100 initial_engine) \<noteq> None
   \<and> reverbDry (startOscillators 44100 initial_engine) \<noteq> None
   \<and> reverbWet (reverbSliderInput 30 (startOscillators 44100 initial_engine)) = Some (3 / 10)
   \<and> reverbDry (reverbSliderInput 30 (startOscillators 44100 initial_engine)) = Some (7 / 10)
   \<and> reverbWet initial_engine = None
   \<and> reverbSliderInput 30 initial_engine = initial_engine"
proof -
  let ?e = "startOscillators 44100 initial_engine"
  have h: "reverbWet ?e \<noteq> None \<and> reverbDry ?e \<noteq> None"
    by (simp add: nth_started)
  have n: "reverbWet initial_engine = None"
    by (simp add: initial_engine_def)
  have "reverbSliderInput 30 ?e
          = ?e\<lparr>reverbWet := Some (real_of_int 30 / 100),
               reverbDry := Some (1 - real_of_int 30 / 100)\<rparr>"
    using reverb_mix [of ?e 30] h by blast
  then have a: "reverbWet (reverbSliderInput 30 ?e) = Some (3 / 10)"
    "reverbDry (reverbSliderInput 30 ?e) = Some (7 / 10)"
    by simp_all
  have b: "reverbSliderInput 30 initial_engine = initial_engine"
    using reverb_mix [of initial_engine 30] n by blast
  show ?thesis
    using h a n b by (intro conjI) simp_all
qed


subsection \<open>A frame on a playing looper, and the default rate\<close>

theorem update_frame_applies_parameters_witness:
  "length (loopers
       (run [StartRecording 0, AudioProcess 0 [Sample 1], StartPlayback 0,
             DeviceOrientation 0 180 0] (startOscillators 44100 initial_engine)))
     \<le> length (parameterSmoothers
       (run [StartRecording 0, AudioProcess 0 [Sample 1], StartPlayback 0,
             DeviceOrientation 0 180 0] (startOscillators 44100 initial_engine)))
   \<and> (0::nat) < length (loopers
       (run [StartRecording 0, AudioProcess 0 [Sample 1], StartPlayback 0,
             DeviceOrientation 0 180 0] (startOscillators 44100 initial_engine)))
   \<and> playbackRate (loopers
       (run [StartRecording 0, AudioProcess 0 [Sample 1], StartPlayback 0,
             DeviceOrientation 0 180 0, UpdateParameters]
          (startOscillators 44100 initial_engine)) ! 0) = 4
   \<and> voices
       (run [StartRecording 0, AudioProcess 0 [Sample 1], StartPlayback 0,
             DeviceOrientation 0 180 0, UpdateParameters]
          (startOscillators 44100 initial_engine)) ! 0 = played_voice [Sample 1] 4"
proof -
  define p where
    "p = run [StartRecording 0, AudioProcess 0 [Sample 1], StartPlayback 0]
           (startOscillators 44100 initial_engine)"
  define q where "q = snd (onDeviceOrientation 0 180 0 p)"
  note ex = playing_example [folded p_def]
  have r1: "run [StartRecording 0, AudioProcess 0 [Sample 1], StartPlayback 0,
                 DeviceOrientation 0 180 0] (startOscillators 44100 initial_engine) = q"
    by (simp add: q_def p_def)
  have r2: "run [StartRecording 0, AudioProcess 0 [Sample 1], StartPlayback 0,
                 DeviceOrientation 0 180 0, UpdateParameters]
              (startOscillators 44100 initial_engine) = snd (updateLooperParameters q)"
    by (simp add: q_def p_def)
  have lp: "length (loopers p) = 4" "length (parameterSmoothers p) = 4"
    unfolding p_def by (simp_all only: length_loopers_run length_smoothers_run nth_started)
  have lq: "length (loopers q) = 4" "length (parameterSmoothers q) = 4"
    using length_loopers_exec [of "DeviceOrientation 0 180 0" p]
      length_smoothers_exec [of "DeviceOrientation 0 180 0" p]
    by (simp_all add: q_def lp)
  have h1: "length (loopers q) \<le> length (parameterSmoothers q)"
    by (simp add: lq)
  have h2: "voice_refs_ok q"
    using refs_exec [OF ex(7), of "DeviceOrientation 0 180 0"] by (simp add: q_def)
  have h3: "0 < length (loopers q)"
    by (simp add: lq)
  have e: "loopers q ! 0 = (loopers p ! 0)\<lparr>targetPlaybackRate := mapToSpeed 1\<rparr>"
    "voices q = voices p"
    unfolding q_def by (simp_all add: onDeviceOrientation_effect lp)
  have sp: "mapToSpeed 1 = Some 4"
    by (simp add: mapToSpeed_index js_index_def PLAYBACK_SPEEDS_def)
  note t = update_frame_applies_parameters [OF h1 h2 h3, unfolded Let_def]
  have a: "playbackRate (loopers (snd (updateLooperParameters q)) ! 0) = 4"
    using t by (simp add: e sp or_1_def)
  have "bufferSource (loopers q ! 0) = Some 0" "isPlaying (loopers q ! 0)"
    by (simp_all add: e ex)
  then have "voices (snd (updateLooperParameters q)) ! 0
               = (voices q ! 0)\<lparr>playbackRate_value := 4\<rparr>"
    using t a by simp
  then have b: "voices (snd (updateLooperParameters q)) ! 0 = played_voice [Sample 1] 4"
    by (simp add: e ex(8) played_voice_def)
  show ?thesis
    unfolding r1 r2 using h1 h3 a b by (intro conjI)
qed

text \<open>
  The claim as stated fails where the target is 0 or \<open>undefined\<close>: with
  \<open>targetPlaybackRate = 0\<close> assigned to looper 0 of the started engine, and with the
  target \<open>undefined\<close> that an orientation sample with \<open>beta = -360\<close> leaves there
  (\<open>mapToSpeed(-0.5)\<close>), the frame sets \<open>playbackRate\<close> to 1, not to the target.
\<close>

theorem update_frame_default_rate_counterexample:
  "targetPlaybackRate
      (loopers (snd (setTargetPlaybackRate 0 (Some 0) (startOscillators 44100 initial_engine)))
         ! 0) = Some 0
   \<and> playbackRate
      (loopers (snd (updateLooperParameters
         (snd (setTargetPlaybackRate 0 (Some 0) (startOscillators 44100 initial_engine)))))
         ! 0) = 1
   \<and> targetPlaybackRate
      (loopers (snd (onDeviceOrientation 0 (- 360) 0 (startOscillators 44100 initial_engine)))
         ! 0) = None
   \<and> playbackRate
      (loopers (snd (updateLooperParameters
         (snd (onDeviceOrientation 0 (- 360) 0 (startOscillators 44100 initial_engine)))))
         ! 0) = 1"
proof -
  let ?e = "startOscillators 44100 initial_engine"
  let ?a = "snd (setTargetPlaybackRate 0 (Some 0) ?e)"
  let ?b = "snd (onDeviceOrientation 0 (- 360) 0 ?e)"
  have la: "length (loopers ?a) = 4" "length (parameterSmoothers ?a) = 4"
    by (simp_all add: setTargetPlaybackRate_def nth_started)
  have lb: "length (loopers ?b) = 4" "length (parameterSmoothers ?b) = 4"
    using length_loopers_exec [of "DeviceOrientation 0 (- 360) 0" ?e]
      length_smoothers_exec [of "DeviceOrientation 0 (- 360) 0" ?e]
    by (simp_all add: nth_started)
  have ra: "voice_refs_ok ?a"
    by (rule refs_setTargetPlaybackRate [OF refs_started])
  have rb: "voice_refs_ok ?b"
    using refs_exec [OF refs_started, of "DeviceOrientation 0 (- 360) 0" 44100] by simp
  have ta: "targetPlaybackRate (loopers ?a ! 0) = Some 0"
    by (simp add: setTargetPlaybackRate_def nth_loopers_update_looper nth_started)
  have "mapToSpeed (- 1 / 2) = None"
    by (simp add: mapToSpeed_index js_index_def)
  then have tb: "targetPlaybackRate (loopers ?b ! 0) = None"
    by (simp add: onDeviceOrientation_effect nth_started)
  have pa: "playbackRate (loopers (snd (updateLooperParameters ?a)) ! 0) = 1"
    using frame_playbackRate [OF _ ra, of 0] by (simp add: la ta or_1_def)
  have pb: "playbackRate (loopers (snd (updateLooperParameters ?b)) ! 0) = 1"
    using frame_playbackRate [OF _ rb, of 0] by (simp add: lb tb or_1_def)
  show ?thesis
    using ta pa tb pb by (intro conjI)
qed


end
